theory Spec2Isabelle
  imports Main
begin

section \<open>JavaScript values and the platform\<close>

text \<open>
  The module \<^verbatim>\<open>db-helper.js\<close> stores an array of student records in three tiers: the
  IndexedDB object store \<^verbatim>\<open>students\<close> (key path \<^verbatim>\<open>id\<close>), \<^verbatim>\<open>localStorage\<close>
  and \<^verbatim>\<open>sessionStorage\<close> (both under the key \<^verbatim>\<open>students\<close>).  The values it handles
  are the values of JSON.  Numbers are integers here (floating point is left out), and a
  \<open>char\<close> stands for one code unit of a JavaScript string.
\<close>

datatype json =
    JNull
  | JBool bool
  | JNum int
  | JStr string
  | JArr "json list"
  | JObj "(string \<times> json) list"

text \<open>What a \<^verbatim>\<open>throw\<close> or a rejected promise carries.\<close>

datatype error =
    SyntaxError        \<comment> \<open>\<^verbatim>\<open>JSON.parse\<close> on text that is not JSON\<close>
  | TypeError          \<comment> \<open>reading a property of \<^verbatim>\<open>null\<close>\<close>
  | DataError          \<comment> \<open>\<^verbatim>\<open>store.put\<close> on a value whose key path yields no valid key\<close>
  | OpenError          \<comment> \<open>\<^verbatim>\<open>request.onerror\<close> of \<^verbatim>\<open>indexedDB.open\<close>\<close>
  | URIError           \<comment> \<open>\<^verbatim>\<open>encodeURIComponent\<close> on a lone surrogate\<close>
  | InvalidDataFormat  \<comment> \<open>\<^verbatim>\<open>new Error('Invalid data format')\<close>\<close>

text \<open>
  The built-ins the module calls and does not define are parameters of the model:
  whether \<^verbatim>\<open>window.indexedDB\<close> exists, whether \<^verbatim>\<open>indexedDB.open\<close> succeeds,
  \<^verbatim>\<open>JSON.stringify\<close>, \<^verbatim>\<open>JSON.parse\<close>, \<^verbatim>\<open>encodeURIComponent\<close> and the clock behind
  \<^verbatim>\<open>new Date().toISOString()\<close>.
\<close>

record platform =
  indexedDB_supported :: bool
  open_succeeds :: bool
  JSON_stringify :: "json \<Rightarrow> string"
  JSON_parse :: "string \<Rightarrow> error + json"
  encodeURIComponent :: "string \<Rightarrow> error + string"
  toISOString_now :: string

text \<open>The effects on the three tiers, in the order in which they happen.\<close>

datatype event =
    LocalSet string string
  | SessionSet string string
  | IdbOpen
  | IdbClear
  | IdbPut json
  | IdbGetAll

text \<open>
  The state: the module variable \<^verbatim>\<open>db\<close> (\<open>False\<close> is \<^verbatim>\<open>null\<close>), the records of the
  object store \<^verbatim>\<open>students\<close> in key order, the two flat stores (\<open>None\<close> is what
  \<^verbatim>\<open>getItem\<close> returns as \<^verbatim>\<open>null\<close>), and the effects so far.  Running out of storage
  is not modelled: \<^verbatim>\<open>setItem\<close> and the requests on the object store succeed, except
  that \<^verbatim>\<open>put\<close> throws on a record without a valid key.
\<close>

record state =
  db :: bool
  idb_students :: "json list"
  localStorage :: "string \<rightharpoonup> string"
  sessionStorage :: "string \<rightharpoonup> string"
  trace :: "event list"

type_synonym 'a outcome = "state \<times> (error + 'a)"

subsection \<open>Truthiness and property reads\<close>

fun truthy :: "json \<Rightarrow> bool" where
  "truthy JNull = False"
| "truthy (JBool b) = b"
| "truthy (JNum n) = (n \<noteq> 0)"
| "truthy (JStr s) = (s \<noteq> [])"
| "truthy (JArr xs) = True"
| "truthy (JObj kvs) = True"

text \<open>\<open>None\<close> is \<^verbatim>\<open>undefined\<close>: a missing argument or a missing property.\<close>

fun truthy_val :: "json option \<Rightarrow> bool" where
  "truthy_val None = False"
| "truthy_val (Some v) = truthy v"

text \<open>
  \<^verbatim>\<open>v.name\<close> for the names the module reads (\<^verbatim>\<open>data\<close>, \<^verbatim>\<open>students\<close>,
  \<^verbatim>\<open>blockedStudents\<close>, \<^verbatim>\<open>departments\<close>, \<^verbatim>\<open>customSubjects\<close>, \<^verbatim>\<open>settings\<close>,
  \<^verbatim>\<open>id\<close>) on a truthy value: only an object has them.
\<close>

fun get_prop :: "json \<Rightarrow> string \<Rightarrow> json option" where
  "get_prop (JObj kvs) name = map_of kvs name"
| "get_prop _ name = None"

fun isArray :: "json option \<Rightarrow> bool" where
  "isArray (Some (JArr xs)) = True"
| "isArray _ = False"

text \<open>\<^verbatim>\<open>students.length\<close> inside the log line: a TypeError on \<^verbatim>\<open>null\<close>.\<close>

definition read_length :: "json \<Rightarrow> error + unit" where
  "read_length v = (if v = JNull then Inl TypeError else Inr ())"

subsection \<open>The flat stores\<close>

definition localStorage_setItem :: "state \<Rightarrow> string \<Rightarrow> string \<Rightarrow> state" where
  "localStorage_setItem s k v =
     s\<lparr>localStorage := (localStorage s)(k \<mapsto> v), trace := trace s @ [LocalSet k v]\<rparr>"

definition sessionStorage_setItem :: "state \<Rightarrow> string \<Rightarrow> string \<Rightarrow> state" where
  "sessionStorage_setItem s k v =
     s\<lparr>sessionStorage := (sessionStorage s)(k \<mapsto> v), trace := trace s @ [SessionSet k v]\<rparr>"

text \<open>\<^verbatim>\<open>getItem(k) || dflt\<close>: the default stands in for \<^verbatim>\<open>null\<close> and for the empty string.\<close>

fun or_default :: "string option \<Rightarrow> string \<Rightarrow> string" where
  "or_default None dflt = dflt"
| "or_default (Some t) dflt = (if t = [] then dflt else t)"

subsection \<open>The object store \<^verbatim>\<open>students\<close>, key path \<^verbatim>\<open>id\<close>\<close>

text \<open>
  A valid IndexedDB key among the values of JSON: a number, a string, or an array of
  valid keys.  Keys are ordered: numbers before strings before arrays, numbers by value,
  strings by code units, arrays element by element.
\<close>

fun valid_key :: "json \<Rightarrow> bool" where
  "valid_key (JNum n) = True"
| "valid_key (JStr s) = True"
| "valid_key (JArr ks) = (\<forall>k \<in> set ks. valid_key k)"
| "valid_key _ = False"

fun str_lt :: "string \<Rightarrow> string \<Rightarrow> bool" where
  "str_lt [] [] = False"
| "str_lt [] (b # bs) = True"
| "str_lt (a # as) [] = False"
| "str_lt (a # as) (b # bs) =
     ((of_char a :: nat) < of_char b \<or> (a = b \<and> str_lt as bs))"

fun key_lt :: "json \<Rightarrow> json \<Rightarrow> bool"
  and keys_lt :: "json list \<Rightarrow> json list \<Rightarrow> bool" where
  "key_lt (JNum a) (JNum b) = (a < b)"
| "key_lt (JNum a) (JStr b) = True"
| "key_lt (JNum a) (JArr ys) = True"
| "key_lt (JStr a) (JStr b) = str_lt a b"
| "key_lt (JStr a) (JArr ys) = True"
| "key_lt (JArr xs) (JArr ys) = keys_lt xs ys"
| "key_lt _ _ = False"
| "keys_lt [] [] = False"
| "keys_lt [] (y # ys) = True"
| "keys_lt (x # xs) [] = False"
| "keys_lt (x # xs) (y # ys) = (key_lt x y \<or> (x = y \<and> keys_lt xs ys))"

text \<open>Evaluating the key path \<^verbatim>\<open>id\<close> on a record: an own property holding a valid key.\<close>

definition key_of :: "json \<Rightarrow> json option" where
  "key_of r =
     (case get_prop r ''id'' of
        None \<Rightarrow> None
      | Some k \<Rightarrow> if valid_key k then Some k else None)"

text \<open>\<open>insert_record k r rs\<close> puts \<open>r\<close> before the first record of a greater key.\<close>

fun insert_record :: "json \<Rightarrow> json \<Rightarrow> json list \<Rightarrow> json list" where
  "insert_record k r [] = [r]"
| "insert_record k r (x # xs) =
     (if (case key_of x of None \<Rightarrow> False | Some k' \<Rightarrow> key_lt k k')
      then r # x # xs
      else x # insert_record k r xs)"

text \<open>
  \<^verbatim>\<open>store.put(student)\<close>: the record replaces the one stored under its key, if any, and
  stands at its key's place.  Without a valid key the call throws and the store keeps what
  the transaction has written so far.
\<close>

definition store_put :: "state \<Rightarrow> json \<Rightarrow> unit outcome" where
  "store_put s student =
     (case key_of student of
        None \<Rightarrow> (s, Inl DataError)
      | Some k \<Rightarrow>
          (s\<lparr>idb_students :=
                insert_record k student
                  (filter (\<lambda>r. key_of r \<noteq> Some k) (idb_students s)),
              trace := trace s @ [IdbPut student]\<rparr>,
           Inr ()))"

definition store_clear :: "state \<Rightarrow> state" where
  "store_clear s = s\<lparr>idb_students := [], trace := trace s @ [IdbClear]\<rparr>"

definition store_getAll :: "state \<Rightarrow> state \<times> json list" where
  "store_getAll s = (s\<lparr>trace := trace s @ [IdbGetAll]\<rparr>, idb_students s)"

section \<open>The module\<close>

subsection \<open>\<^verbatim>\<open>initDB\<close>\<close>

text \<open>
  Resolves \<^verbatim>\<open>null\<close> without IndexedDB, rejects when the open request fails, and
  otherwise sets \<^verbatim>\<open>db\<close>.  The upgrade handler creates the object stores that are
  missing; the store \<^verbatim>\<open>students\<close> of a new database is the empty list.
\<close>

definition initDB :: "platform \<Rightarrow> state \<Rightarrow> bool outcome" where
  "initDB P s =
     (if \<not> indexedDB_supported P then (s, Inr False)
      else if open_succeeds P
        then (s\<lparr>db := True, trace := trace s @ [IdbOpen]\<rparr>, Inr True)
        else (s\<lparr>trace := trace s @ [IdbOpen]\<rparr>, Inl OpenError))"

subsection \<open>\<^verbatim>\<open>saveStudents\<close>\<close>

text \<open>The loop \<^verbatim>\<open>for (const student of students) await put(student)\<close>.\<close>

fun put_all :: "state \<Rightarrow> json list \<Rightarrow> unit outcome" where
  "put_all s [] = (s, Inr ())"
| "put_all s (student # rest) =
     (case store_put s student of
        (s', Inl e) \<Rightarrow> (s', Inl e)
      | (s', Inr u) \<Rightarrow> put_all s' rest)"

text \<open>The body of the \<^verbatim>\<open>try\<close> block.\<close>

definition saveStudents_try :: "platform \<Rightarrow> state \<Rightarrow> json list \<Rightarrow> bool outcome" where
  "saveStudents_try P s students =
     (let s1 = localStorage_setItem s ''students'' (JSON_stringify P (JArr students));
          s2 = sessionStorage_setItem s1 ''students'' (JSON_stringify P (JArr students))
      in case (if \<not> db s2 then initDB P s2 else (s2, Inr True)) of
           (s3, Inl e) \<Rightarrow> (s3, Inl e)
         | (s3, Inr h) \<Rightarrow>
             if db s3 then
               (case put_all (store_clear s3) students of
                  (s4, Inl e) \<Rightarrow> (s4, Inl e)
                | (s4, Inr u) \<Rightarrow> (s4, Inr True))
             else (s3, Inr True))"

text \<open>With the \<^verbatim>\<open>catch\<close> block: write \<^verbatim>\<open>localStorage\<close> again and return \<^verbatim>\<open>false\<close>.\<close>

definition saveStudents :: "platform \<Rightarrow> state \<Rightarrow> json list \<Rightarrow> bool outcome" where
  "saveStudents P s students =
     (case saveStudents_try P s students of
        (s', Inr b) \<Rightarrow> (s', Inr b)
      | (s', Inl e) \<Rightarrow>
          (localStorage_setItem s' ''students'' (JSON_stringify P (JArr students)),
           Inr False))"

subsection \<open>\<^verbatim>\<open>loadStudents\<close>\<close>

text \<open>\<^verbatim>\<open>const students = JSON.parse(text); console.log(students.length); return students\<close>.\<close>

definition parse_students :: "platform \<Rightarrow> state \<Rightarrow> string \<Rightarrow> json outcome" where
  "parse_students P s text =
     (case JSON_parse P text of
        Inl e \<Rightarrow> (s, Inl e)
      | Inr students \<Rightarrow>
          (case read_length students of
             Inl e \<Rightarrow> (s, Inl e)
           | Inr u \<Rightarrow> (s, Inr students)))"

text \<open>The session tier, then \<^verbatim>\<open>return []\<close>.\<close>

definition load_session :: "platform \<Rightarrow> state \<Rightarrow> json outcome" where
  "load_session P s =
     (case sessionStorage s ''students'' of
        None \<Rightarrow> (s, Inr (JArr []))
      | Some sessionData \<Rightarrow>
          if sessionData \<noteq> [] then parse_students P s sessionData
          else (s, Inr (JArr [])))"

text \<open>The durable flat tier, then the session tier.\<close>

definition load_flat :: "platform \<Rightarrow> state \<Rightarrow> json outcome" where
  "load_flat P s =
     (case localStorage s ''students'' of
        None \<Rightarrow> load_session P s
      | Some localData \<Rightarrow>
          if localData \<noteq> [] then parse_students P s localData
          else load_session P s)"

text \<open>The body of the \<^verbatim>\<open>try\<close> block.\<close>

definition loadStudents_try :: "platform \<Rightarrow> state \<Rightarrow> json outcome" where
  "loadStudents_try P s =
     (case (if \<not> db s then initDB P s else (s, Inr True)) of
        (s1, Inl e) \<Rightarrow> (s1, Inl e)
      | (s1, Inr h) \<Rightarrow>
          if db s1 then
            (case store_getAll s1 of
               (s2, students) \<Rightarrow>
                 if 0 < length students
                 then (localStorage_setItem s2 ''students'' (JSON_stringify P (JArr students)),
                       Inr (JArr students))
                 else load_flat P s2)
          else load_flat P s1)"

text \<open>With the \<^verbatim>\<open>catch\<close> block: \<^verbatim>\<open>return []\<close>.\<close>

definition loadStudents :: "platform \<Rightarrow> state \<Rightarrow> json outcome" where
  "loadStudents P s =
     (case loadStudents_try P s of
        (s', Inr students) \<Rightarrow> (s', Inr students)
      | (s', Inl e) \<Rightarrow> (s', Inr (JArr [])))"

subsection \<open>\<^verbatim>\<open>exportData\<close>\<close>

text \<open>\<^verbatim>\<open>JSON.parse(localStorage.getItem(key) || dflt)\<close>.\<close>

definition read_aux :: "platform \<Rightarrow> state \<Rightarrow> string \<Rightarrow> string \<Rightarrow> error + json" where
  "read_aux P s key dflt = JSON_parse P (or_default (localStorage s key) dflt)"

definition exportData_try :: "platform \<Rightarrow> state \<Rightarrow> json outcome" where
  "exportData_try P s =
     (case loadStudents P s of
        (s1, Inl e) \<Rightarrow> (s1, Inl e)
      | (s1, Inr students) \<Rightarrow>
     (case read_aux P s1 ''blockedStudents'' ''[]'' of
        Inl e \<Rightarrow> (s1, Inl e)
      | Inr blockedStudents \<Rightarrow>
     (case read_aux P s1 ''departments'' ''[]'' of
        Inl e \<Rightarrow> (s1, Inl e)
      | Inr departments \<Rightarrow>
     (case read_aux P s1 ''customSubjects'' ''{}'' of
        Inl e \<Rightarrow> (s1, Inl e)
      | Inr customSubjects \<Rightarrow>
     (case read_aux P s1 ''requiredSubjectSettings'' ''{}'' of
        Inl e \<Rightarrow> (s1, Inl e)
      | Inr settings \<Rightarrow>
          (s1, Inr (JObj
             [(''version'', JStr ''1.0''),
              (''exportDate'', JStr (toISOString_now P)),
              (''data'', JObj
                 [(''students'', students),
                  (''blockedStudents'', blockedStudents),
                  (''departments'', departments),
                  (''customSubjects'', customSubjects),
                  (''settings'', settings)])])))))))"

text \<open>The \<^verbatim>\<open>catch\<close> block logs and throws the error again.\<close>

definition exportData :: "platform \<Rightarrow> state \<Rightarrow> json outcome" where
  "exportData P s =
     (case exportData_try P s of
        (s', Inl e) \<Rightarrow> (s', Inl e)
      | (s', Inr exportObject) \<Rightarrow> (s', Inr exportObject))"

subsection \<open>\<^verbatim>\<open>importData\<close>\<close>

text \<open>\<^verbatim>\<open>if (value) localStorage.setItem(key, JSON.stringify(value))\<close>.\<close>

definition write_aux :: "platform \<Rightarrow> state \<Rightarrow> string \<Rightarrow> json option \<Rightarrow> state" where
  "write_aux P s key value =
     (case value of
        None \<Rightarrow> s
      | Some v \<Rightarrow> if truthy v then localStorage_setItem s key (JSON_stringify P v) else s)"

text \<open>
  What follows the check of the format, for \<^verbatim>\<open>jsonData.data\<close>.  \<open>elements\<close> reads the
  array that \<^verbatim>\<open>Array.isArray\<close> has accepted.
\<close>

fun elements :: "json option \<Rightarrow> json list" where
  "elements (Some (JArr xs)) = xs"
| "elements _ = []"

definition import_fields :: "platform \<Rightarrow> state \<Rightarrow> json \<Rightarrow> bool outcome" where
  "import_fields P s data =
     (let students = get_prop data ''students'';
          blockedStudents = get_prop data ''blockedStudents'';
          departments = get_prop data ''departments'';
          customSubjects = get_prop data ''customSubjects'';
          settings = get_prop data ''settings''
      in case (if truthy_val students \<and> isArray students
               then saveStudents P s (elements students)
               else (s, Inr True)) of
           (s1, Inl e) \<Rightarrow> (s1, Inl e)
         | (s1, Inr b) \<Rightarrow>
             (let s2 = write_aux P s1 ''blockedStudents'' blockedStudents;
                  s3 = write_aux P s2 ''departments'' departments;
                  s4 = write_aux P s3 ''customSubjects'' customSubjects;
                  s5 = write_aux P s4 ''requiredSubjectSettings'' settings
              in (s5, Inr True)))"

definition importData_try :: "platform \<Rightarrow> state \<Rightarrow> json option \<Rightarrow> bool outcome" where
  "importData_try P s jsonData =
     (case jsonData of
        None \<Rightarrow> (s, Inl InvalidDataFormat)
      | Some j \<Rightarrow>
          if \<not> truthy j then (s, Inl InvalidDataFormat)
          else (case get_prop j ''data'' of
                  None \<Rightarrow> (s, Inl InvalidDataFormat)
                | Some data \<Rightarrow>
                    if \<not> truthy data then (s, Inl InvalidDataFormat)
                    else import_fields P s data))"

definition importData :: "platform \<Rightarrow> state \<Rightarrow> json option \<Rightarrow> bool outcome" where
  "importData P s jsonData =
     (case importData_try P s jsonData of
        (s', Inl e) \<Rightarrow> (s', Inl e)
      | (s', Inr b) \<Rightarrow> (s', Inr b))"

subsection \<open>\<^verbatim>\<open>generateShareableLink\<close>\<close>

text \<open>\<open>None\<close> as the argument is a call without \<^verbatim>\<open>baseUrl\<close>; \<open>None\<close> as the result is
  \<^verbatim>\<open>null\<close>.\<close>

definition generateShareableLink_try ::
  "platform \<Rightarrow> state \<Rightarrow> string option \<Rightarrow> string option outcome" where
  "generateShareableLink_try P s baseUrl =
     (case loadStudents P s of
        (s1, Inl e) \<Rightarrow> (s1, Inl e)
      | (s1, Inr students) \<Rightarrow>
          (let dataSize = length (JSON_stringify P students)
           in if 50000 < dataSize then (s1, Inr None)
              else (case encodeURIComponent P (JSON_stringify P students) of
                      Inl e \<Rightarrow> (s1, Inl e)
                    | Inr encodedData \<Rightarrow>
                        (s1, Inr (Some
                           ((case baseUrl of None \<Rightarrow> ''student_search.html'' | Some b \<Rightarrow> b)
                            @ ''?students='' @ encodedData))))))"

definition generateShareableLink ::
  "platform \<Rightarrow> state \<Rightarrow> string option \<Rightarrow> string option outcome" where
  "generateShareableLink P s baseUrl =
     (case generateShareableLink_try P s baseUrl of
        (s', Inl e) \<Rightarrow> (s', Inr None)
      | (s', Inr shareUrl) \<Rightarrow> (s', Inr shareUrl))"

text \<open>\<^verbatim>\<open>importData(await exportData())\<close>.\<close>

definition export_then_import :: "platform \<Rightarrow> state \<Rightarrow> bool outcome" where
  "export_then_import P s =
     (case exportData P s of
        (s1, Inl e) \<Rightarrow> (s1, Inl e)
      | (s1, Inr exportObject) \<Rightarrow> importData P s1 (Some exportObject))"

section \<open>Notions of the specification\<close>

text \<open>\<^verbatim>\<open>JSON.parse\<close> gives back the value that \<^verbatim>\<open>JSON.stringify\<close> wrote, and the text
  written is not empty.\<close>

definition roundtrips :: "platform \<Rightarrow> json \<Rightarrow> bool" where
  "roundtrips P v \<longleftrightarrow>
     JSON_stringify P v \<noteq> [] \<and> JSON_parse P (JSON_stringify P v) = Inr v"

text \<open>The transactional tier is available: a connection is open or can be opened.\<close>

definition primary_available :: "platform \<Rightarrow> state \<Rightarrow> bool" where
  "primary_available P s \<longleftrightarrow> db s \<or> (indexedDB_supported P \<and> open_succeeds P)"

text \<open>Records that the object store keeps apart: each has a valid \<^verbatim>\<open>id\<close>, and no two
  share one.\<close>

definition keyed_records :: "json list \<Rightarrow> bool" where
  "keyed_records R \<longleftrightarrow> (\<forall>r \<in> set R. key_of r \<noteq> None) \<and> distinct (map key_of R)"

text \<open>The records of a result, as a set.\<close>

fun record_set :: "error + json \<Rightarrow> json set option" where
  "record_set (Inr (JArr xs)) = Some (set xs)"
| "record_set _ = None"

text \<open>Two loaded values agree: arrays hold the same records, other values are equal.\<close>

fun same_records :: "json \<Rightarrow> json \<Rightarrow> bool" where
  "same_records (JArr xs) (JArr ys) = (set xs = set ys)"
| "same_records v w = (v = w)"

text \<open>Two results of \<^verbatim>\<open>loadStudents\<close> agree: both are values, and the values agree.\<close>

fun same_result :: "error + json \<Rightarrow> error + json \<Rightarrow> bool" where
  "same_result (Inr v) (Inr w) = same_records v w"
| "same_result _ _ = False"

text \<open>The content of the object store after the loop of puts, from the content \<open>st\<close>.\<close>

fun put_records :: "json list \<Rightarrow> json list \<Rightarrow> json list" where
  "put_records st [] = st"
| "put_records st (r # rs) =
     (case key_of r of
        None \<Rightarrow> st
      | Some k \<Rightarrow> put_records (insert_record k r (filter (\<lambda>x. key_of x \<noteq> Some k) st)) rs)"

text \<open>What the flat tiers hold for \<^verbatim>\<open>loadStudents\<close>: the value of the session tier, and
  the value of both, from the texts under \<^verbatim>\<open>students\<close>.\<close>

definition text_value :: "platform \<Rightarrow> string \<Rightarrow> json" where
  "text_value P t =
     (case JSON_parse P t of
        Inl e \<Rightarrow> JArr []
      | Inr v \<Rightarrow> if v = JNull then JArr [] else v)"

definition session_value :: "platform \<Rightarrow> string option \<Rightarrow> json" where
  "session_value P sessionData =
     (case sessionData of
        None \<Rightarrow> JArr []
      | Some t \<Rightarrow> if t = [] then JArr [] else text_value P t)"

definition flat_value :: "platform \<Rightarrow> string option \<Rightarrow> string option \<Rightarrow> json" where
  "flat_value P localData sessionData =
     (case localData of
        None \<Rightarrow> session_value P sessionData
      | Some t \<Rightarrow> if t = [] then session_value P sessionData else text_value P t)"

text \<open>
  What \<^verbatim>\<open>loadStudents\<close> returns, from the fields of the state: the records of the
  object store when it is available and not empty, the empty array when the open request
  fails, and the value of the flat tiers otherwise.
\<close>

definition load_value :: "platform \<Rightarrow> state \<Rightarrow> json" where
  "load_value P s =
     (if primary_available P s then
        (if idb_students s \<noteq> [] then JArr (idb_students s)
         else flat_value P (localStorage s ''students'') (sessionStorage s ''students''))
      else if indexedDB_supported P then JArr []
      else flat_value P (localStorage s ''students'') (sessionStorage s ''students''))"

text \<open>The effects that write the stored records, in any tier.\<close>

fun touches_students :: "event \<Rightarrow> bool" where
  "touches_students (LocalSet k t) = (k = ''students'')"
| "touches_students (SessionSet k t) = (k = ''students'')"
| "touches_students IdbClear = True"
| "touches_students (IdbPut r) = True"
| "touches_students IdbOpen = False"
| "touches_students IdbGetAll = False"

text \<open>The four auxiliary keys with the defaults of \<^verbatim>\<open>exportData\<close>.\<close>

definition aux_keys :: "(string \<times> string) list" where
  "aux_keys =
     [(''blockedStudents'', ''[]''), (''departments'', ''[]''),
      (''customSubjects'', ''{}''), (''requiredSubjectSettings'', ''{}'')]"

text \<open>
  The four auxiliary keys of \<^verbatim>\<open>localStorage\<close>, each with the field of \<^verbatim>\<open>data\<close> whose
  value \<^verbatim>\<open>importData\<close> writes under it, and the writes of an import, in their order: one
  for each field that holds a truthy value.
\<close>

definition aux_fields :: "(string \<times> string) list" where
  "aux_fields =
     [(''blockedStudents'', ''blockedStudents''), (''departments'', ''departments''),
      (''customSubjects'', ''customSubjects''), (''requiredSubjectSettings'', ''settings'')]"

definition aux_events :: "platform \<Rightarrow> json \<Rightarrow> event list" where
  "aux_events P data =
     concat (map (\<lambda>(key, field).
        case get_prop data field of
          None \<Rightarrow> []
        | Some v \<Rightarrow> if truthy v then [LocalSet key (JSON_stringify P v)] else [])
      aux_fields)"

text \<open>
  The records that a full replacement by \<open>R\<close> leaves in the object store: of the records
  before the first one without a valid key, the last one of each key.
\<close>

definition accepted :: "json list \<Rightarrow> json list" where
  "accepted R = takeWhile (\<lambda>r. key_of r \<noteq> None) R"

fun last_of_key :: "json list \<Rightarrow> json list" where
  "last_of_key [] = []"
| "last_of_key (r # rs) =
     (if key_of r \<in> set (map key_of rs) then last_of_key rs else r # last_of_key rs)"

section \<open>A reference platform\<close>

text \<open>
  A platform to run the module on: \<^verbatim>\<open>JSON.stringify\<close> writes the compact text,
  \<^verbatim>\<open>JSON.parse\<close> reads compact texts (no white space, integer numbers, escapes of code
  units below 256), and \<^verbatim>\<open>encodeURIComponent\<close> escapes every code unit but letters,
  digits and \<^verbatim>\<open>- _ . ! ~ * ' ( )\<close> as the bytes of its UTF-8 form.  It reads back every
  value it writes (lemma \<open>reference_platform_roundtrips\<close>).
\<close>

definition digit_char :: "nat \<Rightarrow> char" where
  "digit_char n = char_of (48 + n)"

fun show_nat :: "nat \<Rightarrow> string" where
  "show_nat n = (if n < 10 then [digit_char n] else show_nat (n div 10) @ [digit_char (n mod 10)])"

definition show_int :: "int \<Rightarrow> string" where
  "show_int i = (if i < 0 then CHR ''-'' # show_nat (nat (- i)) else show_nat (nat i))"

definition hex_char :: "nat \<Rightarrow> char" where
  "hex_char n = (if n < 10 then char_of (48 + n) else char_of (87 + n))"

definition escape_char :: "char \<Rightarrow> string" where
  "escape_char c =
     (if c = CHR 0x22 then [CHR 0x5C, CHR 0x22]
      else if c = CHR 0x5C then [CHR 0x5C, CHR 0x5C]
      else if c = CHR 0x08 then [CHR 0x5C, CHR ''b'']
      else if c = CHR 0x0C then [CHR 0x5C, CHR ''f'']
      else if c = CHR 0x0A then [CHR 0x5C, CHR ''n'']
      else if c = CHR 0x0D then [CHR 0x5C, CHR ''r'']
      else if c = CHR 0x09 then [CHR 0x5C, CHR ''t'']
      else if (of_char c :: nat) < 32
        then [CHR 0x5C, CHR ''u'', CHR ''0'', CHR ''0'',
              hex_char (of_char c div 16), hex_char (of_char c mod 16)]
      else [c])"

definition quote :: "string \<Rightarrow> string" where
  "quote s = CHR 0x22 # concat (map escape_char s) @ [CHR 0x22]"

fun ref_stringify :: "json \<Rightarrow> string"
  and ref_stringify_elems :: "json list \<Rightarrow> string"
  and ref_stringify_members :: "(string \<times> json) list \<Rightarrow> string"
  and ref_stringify_member :: "string \<times> json \<Rightarrow> string" where
  "ref_stringify JNull = ''null''"
| "ref_stringify (JBool b) = (if b then ''true'' else ''false'')"
| "ref_stringify (JNum n) = show_int n"
| "ref_stringify (JStr s) = quote s"
| "ref_stringify (JArr xs) = ''['' @ ref_stringify_elems xs @ '']''"
| "ref_stringify (JObj kvs) = ''{'' @ ref_stringify_members kvs @ ''}''"
| "ref_stringify_elems [] = []"
| "ref_stringify_elems [x] = ref_stringify x"
| "ref_stringify_elems (x # y # ys) = ref_stringify x @ '','' @ ref_stringify_elems (y # ys)"
| "ref_stringify_members [] = []"
| "ref_stringify_members [m] = ref_stringify_member m"
| "ref_stringify_members (m # n # ms) = ref_stringify_member m @ '','' @ ref_stringify_members (n # ms)"
| "ref_stringify_member (k, v) = quote k @ '':'' @ ref_stringify v"

definition is_digit :: "char \<Rightarrow> bool" where
  "is_digit c = (48 \<le> (of_char c :: nat) \<and> (of_char c :: nat) \<le> 57)"

fun parse_digits :: "string \<Rightarrow> nat \<Rightarrow> nat \<times> string" where
  "parse_digits [] acc = (acc, [])"
| "parse_digits (c # cs) acc =
     (if is_digit c then parse_digits cs (10 * acc + (of_char c - 48)) else (acc, c # cs))"

text \<open>A natural number in decimal digits, without a leading zero.\<close>

definition parse_nat :: "string \<Rightarrow> (nat \<times> string) option" where
  "parse_nat s =
     (case s of
        [] \<Rightarrow> None
      | d # ds \<Rightarrow>
          if \<not> is_digit d then None
          else if d = CHR ''0'' then
            (case ds of
               [] \<Rightarrow> Some (0, [])
             | e # es \<Rightarrow> if is_digit e then None else Some (0, ds))
          else Some (parse_digits s 0))"

definition parse_number :: "string \<Rightarrow> (json \<times> string) option" where
  "parse_number s =
     (case s of
        [] \<Rightarrow> None
      | c # cs \<Rightarrow>
          if c = CHR ''-''
          then map_option (\<lambda>(n, rest). (JNum (- int n), rest)) (parse_nat cs)
          else map_option (\<lambda>(n, rest). (JNum (int n), rest)) (parse_nat s))"

definition hex_val :: "char \<Rightarrow> nat option" where
  "hex_val c =
     (let n = (of_char c :: nat)
      in if 48 \<le> n \<and> n \<le> 57 then Some (n - 48)
         else if 97 \<le> n \<and> n \<le> 102 then Some (n - 87)
         else if 65 \<le> n \<and> n \<le> 70 then Some (n - 55)
         else None)"

definition unescape :: "char \<Rightarrow> char option" where
  "unescape e =
     (if e = CHR 0x22 \<or> e = CHR 0x5C \<or> e = CHR ''/'' then Some e
      else if e = CHR ''b'' then Some (CHR 0x08)
      else if e = CHR ''f'' then Some (CHR 0x0C)
      else if e = CHR ''n'' then Some (CHR 0x0A)
      else if e = CHR ''r'' then Some (CHR 0x0D)
      else if e = CHR ''t'' then Some (CHR 0x09)
      else None)"

definition unicode_escape :: "char \<Rightarrow> char \<Rightarrow> char \<Rightarrow> char \<Rightarrow> char option" where
  "unicode_escape h1 h2 h3 h4 =
     (case (hex_val h1, hex_val h2, hex_val h3, hex_val h4) of
        (Some a, Some b, Some c, Some d) \<Rightarrow>
          if a = 0 \<and> b = 0 then Some (char_of (16 * c + d)) else None
      | _ \<Rightarrow> None)"

fun parse_chars :: "string \<Rightarrow> (string \<times> string) option" where
  "parse_chars [] = None"
| "parse_chars (c # cs) =
     (if c = CHR 0x22 then Some ([], cs)
      else if c = CHR 0x5C then
        (case cs of
           [] \<Rightarrow> None
         | e # es \<Rightarrow>
             if e = CHR ''u'' then
               (case es of
                  h1 # h2 # h3 # h4 # rest \<Rightarrow>
                    (case unicode_escape h1 h2 h3 h4 of
                       None \<Rightarrow> None
                     | Some d \<Rightarrow> map_option (\<lambda>(str, r). (d # str, r)) (parse_chars rest))
                | _ \<Rightarrow> None)
             else
               (case unescape e of
                  None \<Rightarrow> None
                | Some d \<Rightarrow> map_option (\<lambda>(str, r). (d # str, r)) (parse_chars es)))
      else if (of_char c :: nat) < 32 then None
      else map_option (\<lambda>(str, r). (c # str, r)) (parse_chars cs))"

fun parse_value :: "nat \<Rightarrow> string \<Rightarrow> (json \<times> string) option"
  and parse_elems :: "nat \<Rightarrow> string \<Rightarrow> (json list \<times> string) option"
  and parse_members :: "nat \<Rightarrow> string \<Rightarrow> ((string \<times> json) list \<times> string) option" where
  "parse_value n s =
     (if n = 0 then None
      else case s of
        [] \<Rightarrow> None
      | c # cs \<Rightarrow>
          if c = CHR ''['' then
            (case cs of
               [] \<Rightarrow> None
             | d # ds \<Rightarrow>
                 if d = CHR '']'' then Some (JArr [], ds)
                 else map_option (\<lambda>(xs, r). (JArr xs, r)) (parse_elems (n - 1) cs))
          else if c = CHR ''{'' then
            (case cs of
               [] \<Rightarrow> None
             | d # ds \<Rightarrow>
                 if d = CHR ''}'' then Some (JObj [], ds)
                 else map_option (\<lambda>(ms, r). (JObj ms, r)) (parse_members (n - 1) cs))
          else if c = CHR 0x22 then map_option (\<lambda>(str, r). (JStr str, r)) (parse_chars cs)
          else if take 4 s = ''null'' then Some (JNull, drop 4 s)
          else if take 4 s = ''true'' then Some (JBool True, drop 4 s)
          else if take 5 s = ''false'' then Some (JBool False, drop 5 s)
          else parse_number s)"
| "parse_elems n s =
     (if n = 0 then None
      else case parse_value (n - 1) s of
        None \<Rightarrow> None
      | Some (v, r) \<Rightarrow>
          (case r of
             [] \<Rightarrow> None
           | c # cs \<Rightarrow>
               if c = CHR '']'' then Some ([v], cs)
               else if c = CHR '','' then
                 map_option (\<lambda>(vs, r'). (v # vs, r')) (parse_elems (n - 1) cs)
               else None))"
| "parse_members n s =
     (if n = 0 then None
      else case s of
        [] \<Rightarrow> None
      | q # cs \<Rightarrow>
          if q \<noteq> CHR 0x22 then None
          else (case parse_chars cs of
                  None \<Rightarrow> None
                | Some (k, r) \<Rightarrow>
                    (case r of
                       [] \<Rightarrow> None
                     | c # cs' \<Rightarrow>
                         if c \<noteq> CHR '':'' then None
                         else (case parse_value (n - 1) cs' of
                                 None \<Rightarrow> None
                               | Some (v, r') \<Rightarrow>
                                   (case r' of
                                      [] \<Rightarrow> None
                                    | d # ds \<Rightarrow>
                                        if d = CHR ''}'' then Some ([(k, v)], ds)
                                        else if d = CHR '','' then
                                          map_option (\<lambda>(ms, r''). ((k, v) # ms, r''))
                                            (parse_members (n - 1) ds)
                                        else None)))))"

definition ref_parse :: "string \<Rightarrow> error + json" where
  "ref_parse text =
     (case parse_value (Suc (length text)) text of
        Some (v, []) \<Rightarrow> Inr v
      | _ \<Rightarrow> Inl SyntaxError)"

definition HEX_char :: "nat \<Rightarrow> char" where
  "HEX_char n = (if n < 10 then char_of (48 + n) else char_of (55 + n))"

definition percent_byte :: "nat \<Rightarrow> string" where
  "percent_byte n = [CHR ''%'', HEX_char (n div 16), HEX_char (n mod 16)]"

definition uri_unreserved :: "char \<Rightarrow> bool" where
  "uri_unreserved c =
     (let n = (of_char c :: nat)
      in (65 \<le> n \<and> n \<le> 90) \<or> (97 \<le> n \<and> n \<le> 122) \<or> (48 \<le> n \<and> n \<le> 57)
         \<or> c \<in> set [CHR ''-'', CHR ''_'', CHR ''.'', CHR ''!'', CHR ''~'', CHR ''*'',
                     CHR 0x27, CHR ''('', CHR '')''])"

definition encode_unit :: "char \<Rightarrow> string" where
  "encode_unit c =
     (let n = (of_char c :: nat)
      in if uri_unreserved c then [c]
         else if n < 128 then percent_byte n
         else percent_byte (192 + n div 64) @ percent_byte (128 + n mod 64))"

definition ref_encodeURIComponent :: "string \<Rightarrow> error + string" where
  "ref_encodeURIComponent s = Inr (concat (map encode_unit s))"

definition reference_platform :: "bool \<Rightarrow> bool \<Rightarrow> platform" where
  "reference_platform supported opens =
     \<lparr>indexedDB_supported = supported, open_succeeds = opens,
      JSON_stringify = ref_stringify, JSON_parse = ref_parse,
      encodeURIComponent = ref_encodeURIComponent,
      toISOString_now = ''2024-01-01T00:00:00.000Z''\<rparr>"

text \<open>
  For the proof that the reference platform reads back what it writes: the calls that
  \<open>parse_value\<close> needs for the text of a value, and the texts after which a number ends.
\<close>

fun nodes :: "json \<Rightarrow> nat"
  and nodes_elems :: "json list \<Rightarrow> nat"
  and nodes_members :: "(string \<times> json) list \<Rightarrow> nat"
  and nodes_member :: "string \<times> json \<Rightarrow> nat" where
  "nodes JNull = 1"
| "nodes (JBool b) = 1"
| "nodes (JNum n) = 1"
| "nodes (JStr s) = 1"
| "nodes (JArr xs) = 1 + nodes_elems xs"
| "nodes (JObj kvs) = 1 + nodes_members kvs"
| "nodes_elems [] = 0"
| "nodes_elems [x] = 1 + nodes x"
| "nodes_elems (x # y # ys) = 1 + nodes x + nodes_elems (y # ys)"
| "nodes_members [] = 0"
| "nodes_members [m] = 1 + nodes_member m"
| "nodes_members (m # n # ms) = 1 + nodes_member m + nodes_members (n # ms)"
| "nodes_member (k, v) = nodes v"

definition number_end :: "string \<Rightarrow> bool" where
  "number_end rest \<longleftrightarrow> rest = [] \<or> \<not> is_digit (hd rest)"

text \<open>A page that has stored nothing yet.\<close>

definition fresh_state :: state where
  "fresh_state =
     \<lparr>db = False, idb_students = [], localStorage = Map.empty,
      sessionStorage = Map.empty, trace = []\<rparr>"

text \<open>
  Students: two of the data model, one that shares the \<^verbatim>\<open>id\<close> of the first, and one
  without an \<^verbatim>\<open>id\<close>.  Then a store of one record of more than 50 000 characters, and
  pages that have used the durable flat tier only.
\<close>

definition ada :: json where
  "ada = JObj [(''id'', JNum 1), (''name'', JStr ''Ada'')]"

definition bo :: json where
  "bo = JObj [(''id'', JNum 2), (''name'', JStr ''Bo'')]"

definition eve :: json where
  "eve = JObj [(''id'', JNum 1), (''name'', JStr ''Eve'')]"

definition nameless :: json where
  "nameless = JObj [(''name'', JStr ''Bo'')]"

text \<open>An envelope whose \<^verbatim>\<open>data.students\<close> is a string.\<close>

definition odd_data :: json where
  "odd_data = JObj [(''students'', JStr ''none''), (''departments'', JArr [JStr ''CS''])]"

definition odd_envelope :: json where
  "odd_envelope = JObj [(''data'', odd_data)]"

definition big_state :: state where
  "big_state =
     fresh_state\<lparr>db := True,
       idb_students :=
         [JObj [(''id'', JNum 1), (''name'', JStr (replicate 50000 (CHR ''a'')))]]\<rparr>"

definition stored_state :: state where
  "stored_state =
     fresh_state\<lparr>localStorage :=
       [''students'' \<mapsto> ref_stringify (JArr [bo, ada]),
        ''departments'' \<mapsto> ref_stringify (JArr [JStr ''CS''])]\<rparr>"

definition twin_state :: state where
  "twin_state =
     fresh_state\<lparr>localStorage := [''students'' \<mapsto> ref_stringify (JArr [ada, eve])]\<rparr>"

text \<open>
  An envelope to import: four records, of which the second shares the \<^verbatim>\<open>id\<close> of the
  first and the third has none, a list of departments, and \<^verbatim>\<open>null\<close> for
  \<^verbatim>\<open>customSubjects\<close>.  Then a page that has one record in the object store and a text
  under \<^verbatim>\<open>customSubjects\<close>.
\<close>

definition mixed_data :: json where
  "mixed_data =
     JObj [(''students'', JArr [ada, eve, nameless, bo]),
           (''departments'', JArr [JStr ''CS'']),
           (''customSubjects'', JNull)]"

definition mixed_envelope :: json where
  "mixed_envelope = JObj [(''version'', JStr ''1.0''), (''data'', mixed_data)]"

definition used_state :: state where
  "used_state =
     fresh_state\<lparr>idb_students := [bo], localStorage := [''customSubjects'' \<mapsto> ''{}'']\<rparr>"

section \<open>Lemmas\<close>

subsection \<open>The flat stores and the object store, field by field\<close>

lemma localStorage_setItem_fields:
  "db (localStorage_setItem s k v) = db s"
  "idb_students (localStorage_setItem s k v) = idb_students s"
  "localStorage (localStorage_setItem s k v) = (localStorage s)(k \<mapsto> v)"
  "sessionStorage (localStorage_setItem s k v) = sessionStorage s"
  "trace (localStorage_setItem s k v) = trace s @ [LocalSet k v]"
  by (simp_all add: localStorage_setItem_def)

lemma sessionStorage_setItem_fields:
  "db (sessionStorage_setItem s k v) = db s"
  "idb_students (sessionStorage_setItem s k v) = idb_students s"
  "localStorage (sessionStorage_setItem s k v) = localStorage s"
  "sessionStorage (sessionStorage_setItem s k v) = (sessionStorage s)(k \<mapsto> v)"
  "trace (sessionStorage_setItem s k v) = trace s @ [SessionSet k v]"
  by (simp_all add: sessionStorage_setItem_def)

lemma store_clear_fields:
  "db (store_clear s) = db s"
  "idb_students (store_clear s) = []"
  "localStorage (store_clear s) = localStorage s"
  "sessionStorage (store_clear s) = sessionStorage s"
  "trace (store_clear s) = trace s @ [IdbClear]"
  by (simp_all add: store_clear_def)

lemma store_put_fields:
  "db (fst (store_put s r)) = db s"
  "localStorage (fst (store_put s r)) = localStorage s"
  "sessionStorage (fst (store_put s r)) = sessionStorage s"
  by (simp_all add: store_put_def split: option.splits)

lemma store_put_trace: "\<exists>evs. trace (fst (store_put s r)) = trace s @ evs"
  by (simp add: store_put_def split: option.splits)

lemma put_all_fields:
  "db (fst (put_all s R)) = db s"
  "localStorage (fst (put_all s R)) = localStorage s"
  "sessionStorage (fst (put_all s R)) = sessionStorage s"
proof (induction R arbitrary: s)
  case Nil
  { case 1 show ?case by simp }
  { case 2 show ?case by simp }
  { case 3 show ?case by simp }
next
  case (Cons r R)
  { case 1 show ?case using Cons.IH(1) [of "fst (store_put s r)"] store_put_fields(1) [of s r]
      by (cases "store_put s r") (auto split: sum.splits) }
  { case 2 show ?case using Cons.IH(2) [of "fst (store_put s r)"] store_put_fields(2) [of s r]
      by (cases "store_put s r") (auto split: sum.splits) }
  { case 3 show ?case using Cons.IH(3) [of "fst (store_put s r)"] store_put_fields(3) [of s r]
      by (cases "store_put s r") (auto split: sum.splits) }
qed

lemma put_all_trace: "\<exists>evs. trace (fst (put_all s R)) = trace s @ evs"
proof (induction R arbitrary: s)
  case Nil
  show ?case by simp
next
  case (Cons r R)
  obtain s' res where sp: "store_put s r = (s', res)" by (cases "store_put s r")
  from store_put_trace [of s r] sp obtain e1 where e1: "trace s' = trace s @ e1" by auto
  from Cons.IH [of s'] obtain e2 where e2: "trace (fst (put_all s' R)) = trace s' @ e2" by auto
  show ?case using sp e1 e2 by (cases res) auto
qed

lemma put_all_idb: "idb_students (fst (put_all s R)) = put_records (idb_students s) R"
proof (induction R arbitrary: s)
  case Nil
  show ?case by simp
next
  case (Cons r R)
  show ?case
  proof (cases "key_of r")
    case None
    then show ?thesis by (simp add: store_put_def)
  next
    case (Some k)
    then show ?thesis using Cons.IH by (simp add: store_put_def)
  qed
qed

lemma put_all_result:
  "snd (put_all s R) = (if \<forall>r \<in> set R. key_of r \<noteq> None then Inr () else Inl DataError)"
proof (induction R arbitrary: s)
  case Nil
  show ?case by simp
next
  case (Cons r R)
  show ?case
  proof (cases "key_of r")
    case None
    then show ?thesis by (simp add: store_put_def)
  next
    case (Some k)
    then show ?thesis using Cons.IH by (simp add: store_put_def)
  qed
qed

subsection \<open>The content of the object store after a save\<close>

lemma set_insert_record: "set (insert_record k r rs) = insert r (set rs)"
  by (induction rs) auto

lemma put_records_set:
  "\<forall>r \<in> set R. key_of r \<noteq> None \<Longrightarrow> distinct (map key_of R) \<Longrightarrow>
   \<forall>x \<in> set st. key_of x \<notin> key_of ` set R \<Longrightarrow>
   set (put_records st R) = set st \<union> set R"
proof (induction R arbitrary: st)
  case Nil
  show ?case by simp
next
  case (Cons r R)
  from Cons.prems(1) obtain k where k: "key_of r = Some k" by auto
  let ?st = "insert_record k r (filter (\<lambda>x. key_of x \<noteq> Some k) st)"
  have keep: "filter (\<lambda>x. key_of x \<noteq> Some k) st = st"
    using Cons.prems(3) k by (auto simp: filter_id_conv)
  have st: "set ?st = insert r (set st)"
    by (simp add: set_insert_record keep)
  have "\<forall>x \<in> set ?st. key_of x \<notin> key_of ` set R"
    using Cons.prems(2,3) st by auto
  with Cons.IH [of ?st] Cons.prems(1,2) have "set (put_records ?st R) = set ?st \<union> set R"
    by simp
  then show ?case using k st by simp
qed

lemma put_records_keyed:
  "keyed_records R \<Longrightarrow> set (put_records [] R) = set R"
  using put_records_set [of R "[]"] by (simp add: keyed_records_def)

subsection \<open>\<^verbatim>\<open>saveStudents\<close>, field by field\<close>

text \<open>The state in which the primary path of \<^verbatim>\<open>saveStudents\<close> starts.\<close>

lemma saveStudents_try_cases:
  "saveStudents_try P s R =
     (let t = JSON_stringify P (JArr R);
          s2 = sessionStorage_setItem (localStorage_setItem s ''students'' t) ''students'' t
      in if db s then
           (case put_all (store_clear s2) R of
              (s4, Inl e) \<Rightarrow> (s4, Inl e) | (s4, Inr u) \<Rightarrow> (s4, Inr True))
         else if \<not> indexedDB_supported P then (s2, Inr True)
         else if open_succeeds P then
           (case put_all (store_clear (s2\<lparr>db := True, trace := trace s2 @ [IdbOpen]\<rparr>)) R of
              (s4, Inl e) \<Rightarrow> (s4, Inl e) | (s4, Inr u) \<Rightarrow> (s4, Inr True))
         else (s2\<lparr>trace := trace s2 @ [IdbOpen]\<rparr>, Inl OpenError))"
  by (simp add: saveStudents_try_def initDB_def Let_def
      localStorage_setItem_fields sessionStorage_setItem_fields)

lemma saveStudents_try_localStorage:
  "localStorage (fst (saveStudents_try P s R)) =
     (localStorage s)(''students'' \<mapsto> JSON_stringify P (JArr R))"
  using put_all_fields(2)
  by (simp add: saveStudents_try_cases Let_def split_beta store_clear_fields
      localStorage_setItem_fields sessionStorage_setItem_fields split: sum.splits)

lemma saveStudents_try_sessionStorage:
  "sessionStorage (fst (saveStudents_try P s R)) =
     (sessionStorage s)(''students'' \<mapsto> JSON_stringify P (JArr R))"
  using put_all_fields(3)
  by (simp add: saveStudents_try_cases Let_def split_beta store_clear_fields
      localStorage_setItem_fields sessionStorage_setItem_fields split: sum.splits)

lemma saveStudents_try_db:
  "db (fst (saveStudents_try P s R)) = primary_available P s"
  using put_all_fields(1)
  by (simp add: saveStudents_try_cases Let_def split_beta store_clear_fields primary_available_def
      localStorage_setItem_fields sessionStorage_setItem_fields split: sum.splits)

lemma saveStudents_try_idb:
  "idb_students (fst (saveStudents_try P s R)) =
     (if primary_available P s then put_records [] R else idb_students s)"
  by (simp add: saveStudents_try_cases Let_def split_beta store_clear_fields primary_available_def
      put_all_idb localStorage_setItem_fields sessionStorage_setItem_fields split: sum.splits)

lemma saveStudents_try_result:
  "snd (saveStudents_try P s R) =
     (if primary_available P s
      then (if \<forall>r \<in> set R. key_of r \<noteq> None then Inr True else Inl DataError)
      else if indexedDB_supported P then Inl OpenError else Inr True)"
proof -
  have r: "snd (case put_all s' R of (s4, Inl e) \<Rightarrow> (s4, Inl e)
                       | (s4, Inr u) \<Rightarrow> (s4, Inr True)) =
             (if \<forall>r \<in> set R. key_of r \<noteq> None then Inr True else Inl DataError)" for s'
  proof (cases "put_all s' R")
    case (Pair s4 res)
    with put_all_result [of s' R] show ?thesis
      by (cases res) (simp_all split: if_splits)
  qed
  show ?thesis
    by (cases "db s"; cases "indexedDB_supported P"; cases "open_succeeds P")
      (simp_all add: saveStudents_try_cases Let_def primary_available_def r)
qed

lemma saveStudents_fst_snd:
  "saveStudents P s R =
     (case snd (saveStudents_try P s R) of
        Inr b \<Rightarrow> (fst (saveStudents_try P s R), Inr b)
      | Inl e \<Rightarrow>
          (localStorage_setItem (fst (saveStudents_try P s R)) ''students''
             (JSON_stringify P (JArr R)), Inr False))"
  by (simp add: saveStudents_def split: prod.splits sum.splits)

lemma saveStudents_localStorage:
  "localStorage (fst (saveStudents P s R)) =
     (localStorage s)(''students'' \<mapsto> JSON_stringify P (JArr R))"
  by (simp add: saveStudents_fst_snd saveStudents_try_localStorage localStorage_setItem_fields
      split: sum.splits)

lemma saveStudents_sessionStorage:
  "sessionStorage (fst (saveStudents P s R)) =
     (sessionStorage s)(''students'' \<mapsto> JSON_stringify P (JArr R))"
  by (simp add: saveStudents_fst_snd saveStudents_try_sessionStorage localStorage_setItem_fields
      split: sum.splits)

lemma saveStudents_db: "db (fst (saveStudents P s R)) = primary_available P s"
  by (simp add: saveStudents_fst_snd saveStudents_try_db localStorage_setItem_fields
      split: sum.splits)

lemma saveStudents_idb:
  "idb_students (fst (saveStudents P s R)) =
     (if primary_available P s then put_records [] R else idb_students s)"
  by (simp add: saveStudents_fst_snd saveStudents_try_idb localStorage_setItem_fields
      split: sum.splits)

lemma saveStudents_result:
  "snd (saveStudents P s R) =
     Inr (if primary_available P s then (\<forall>r \<in> set R. key_of r \<noteq> None)
          else \<not> indexedDB_supported P)"
  by (simp add: saveStudents_fst_snd saveStudents_try_result split: sum.splits)

subsection \<open>\<^verbatim>\<open>loadStudents\<close>, field by field\<close>

lemma parse_students_value:
  "fst (parse_students P s t) = s"
  "(case snd (parse_students P s t) of Inl e \<Rightarrow> JArr [] | Inr v \<Rightarrow> v) = text_value P t"
  by (simp_all add: parse_students_def text_value_def read_length_def split: sum.splits)

lemma load_session_value:
  "fst (load_session P s) = s"
  "(case snd (load_session P s) of Inl e \<Rightarrow> JArr [] | Inr v \<Rightarrow> v) =
     session_value P (sessionStorage s ''students'')"
  by (simp_all add: load_session_def session_value_def parse_students_value split: option.splits)

lemma load_flat_value:
  "fst (load_flat P s) = s"
  "(case snd (load_flat P s) of Inl e \<Rightarrow> JArr [] | Inr v \<Rightarrow> v) =
     flat_value P (localStorage s ''students'') (sessionStorage s ''students'')"
  by (simp_all add: load_flat_def flat_value_def parse_students_value load_session_value
      split: option.splits)

lemma loadStudents_fst_snd:
  "loadStudents P s =
     (fst (loadStudents_try P s),
      Inr (case snd (loadStudents_try P s) of Inl e \<Rightarrow> JArr [] | Inr v \<Rightarrow> v))"
  by (simp add: loadStudents_def split: prod.splits sum.splits)

lemma loadStudents_result: "snd (loadStudents P s) = Inr (load_value P s)"
  using load_flat_value(2)
  by (simp add: loadStudents_fst_snd loadStudents_try_def initDB_def store_getAll_def
      load_value_def primary_available_def)

lemma loadStudents_db: "db (fst (loadStudents P s)) = primary_available P s"
  by (simp add: loadStudents_fst_snd loadStudents_try_def initDB_def store_getAll_def
      primary_available_def load_flat_value(1) localStorage_setItem_fields)

lemma loadStudents_idb: "idb_students (fst (loadStudents P s)) = idb_students s"
  by (simp add: loadStudents_fst_snd loadStudents_try_def initDB_def store_getAll_def
      load_flat_value(1) localStorage_setItem_fields)

lemma loadStudents_sessionStorage: "sessionStorage (fst (loadStudents P s)) = sessionStorage s"
  by (simp add: loadStudents_fst_snd loadStudents_try_def initDB_def store_getAll_def
      load_flat_value(1) localStorage_setItem_fields)

lemma loadStudents_localStorage:
  "localStorage (fst (loadStudents P s)) =
     (if primary_available P s \<and> idb_students s \<noteq> []
      then (localStorage s)(''students'' \<mapsto> JSON_stringify P (JArr (idb_students s)))
      else localStorage s)"
  by (simp add: loadStudents_fst_snd loadStudents_try_def initDB_def store_getAll_def
      primary_available_def load_flat_value(1) localStorage_setItem_fields)

lemma roundtrips_text_value:
  "roundtrips P v \<Longrightarrow> v \<noteq> JNull \<Longrightarrow> text_value P (JSON_stringify P v) = v"
  by (simp add: roundtrips_def text_value_def)

lemma roundtrips_flat_value:
  "roundtrips P v \<Longrightarrow> v \<noteq> JNull \<Longrightarrow> flat_value P (Some (JSON_stringify P v)) ss = v"
  by (simp add: flat_value_def roundtrips_text_value) (simp add: roundtrips_def)

lemma saveStudents_try_trace:
  "\<exists>evs. trace (fst (saveStudents_try P s R)) =
     trace s @ LocalSet ''students'' (JSON_stringify P (JArr R))
             # SessionSet ''students'' (JSON_stringify P (JArr R)) # evs"
proof -
  let ?t = "JSON_stringify P (JArr R)"
  let ?s2 = "sessionStorage_setItem (localStorage_setItem s ''students'' ?t) ''students'' ?t"
  have s2: "trace ?s2 = trace s @ [LocalSet ''students'' ?t, SessionSet ''students'' ?t]"
    by (simp add: localStorage_setItem_fields sessionStorage_setItem_fields)
  have loop: "\<exists>evs. trace (fst (case put_all s' R of
                  (s4, Inl e) \<Rightarrow> (s4, Inl e) | (s4, Inr u) \<Rightarrow> (s4, Inr True))) = trace s' @ evs"
    for s' :: state
    using put_all_trace [of s' R] by (cases "put_all s' R") (auto split: sum.splits)
  show ?thesis
  proof (cases "db s")
    case True
    from loop [of "store_clear ?s2"] obtain evs where
      "trace (fst (case put_all (store_clear ?s2) R of
          (s4, Inl e) \<Rightarrow> (s4, Inl e) | (s4, Inr u) \<Rightarrow> (s4, Inr True))) =
        trace (store_clear ?s2) @ evs" by blast
    then show ?thesis using True s2
      by (simp add: saveStudents_try_cases Let_def store_clear_fields)
  next
    case False
    show ?thesis
    proof (cases "indexedDB_supported P \<and> open_succeeds P")
      case True
      let ?s3 = "?s2\<lparr>db := True, trace := trace ?s2 @ [IdbOpen]\<rparr>"
      from loop [of "store_clear ?s3"] obtain evs where
        "trace (fst (case put_all (store_clear ?s3) R of
            (s4, Inl e) \<Rightarrow> (s4, Inl e) | (s4, Inr u) \<Rightarrow> (s4, Inr True))) =
          trace (store_clear ?s3) @ evs" by blast
      then show ?thesis using True \<open>\<not> db s\<close> s2
        by (simp add: saveStudents_try_cases Let_def store_clear_fields)
    next
      case False
      then show ?thesis using \<open>\<not> db s\<close> s2
        by (auto simp add: saveStudents_try_cases Let_def)
    qed
  qed
qed

lemma saveStudents_trace:
  "trace (fst (saveStudents P s R)) =
     (if isl (snd (saveStudents_try P s R))
      then trace (fst (saveStudents_try P s R)) @ [LocalSet ''students'' (JSON_stringify P (JArr R))]
      else trace (fst (saveStudents_try P s R)))"
  by (simp add: saveStudents_fst_snd localStorage_setItem_fields split: sum.splits)

lemma write_aux_fields:
  "db (write_aux P s k v) = db s"
  "idb_students (write_aux P s k v) = idb_students s"
  "sessionStorage (write_aux P s k v) = sessionStorage s"
  "localStorage (write_aux P s k v) =
     (case v of None \<Rightarrow> localStorage s
      | Some w \<Rightarrow> if truthy w then (localStorage s)(k \<mapsto> JSON_stringify P w) else localStorage s)"
  "trace (write_aux P s k v) =
     (case v of None \<Rightarrow> trace s
      | Some w \<Rightarrow> if truthy w then trace s @ [LocalSet k (JSON_stringify P w)] else trace s)"
  by (simp_all add: write_aux_def localStorage_setItem_fields split: option.splits)

lemma import_fields_result: "snd (import_fields P s data) = Inr True"
proof -
  have "\<not> isl (snd (saveStudents P s R))" for R
    by (simp add: saveStudents_result)
  then show ?thesis
    by (auto simp add: import_fields_def Let_def split: prod.splits sum.splits)
      (metis sum.disc(1) snd_conv)+
qed

subsection \<open>\<^verbatim>\<open>exportData\<close> and \<^verbatim>\<open>importData\<close>, field by field\<close>

lemma read_aux_cong:
  "localStorage s' key = localStorage s key \<Longrightarrow> read_aux P s' key dflt = read_aux P s key dflt"
  by (simp add: read_aux_def)

lemma read_aux_after_load:
  "key \<noteq> ''students'' \<Longrightarrow> read_aux P (fst (loadStudents P s)) key dflt = read_aux P s key dflt"
  by (rule read_aux_cong) (simp add: loadStudents_localStorage)

lemma exportData_fst: "fst (exportData P s) = fst (loadStudents P s)"
  by (simp add: exportData_def exportData_try_def split: prod.splits sum.splits)

lemma exportData_result:
  "snd (exportData P s) =
     (case read_aux P s ''blockedStudents'' ''[]'' of
        Inl e \<Rightarrow> Inl e
      | Inr blockedStudents \<Rightarrow>
     (case read_aux P s ''departments'' ''[]'' of
        Inl e \<Rightarrow> Inl e
      | Inr departments \<Rightarrow>
     (case read_aux P s ''customSubjects'' ''{}'' of
        Inl e \<Rightarrow> Inl e
      | Inr customSubjects \<Rightarrow>
     (case read_aux P s ''requiredSubjectSettings'' ''{}'' of
        Inl e \<Rightarrow> Inl e
      | Inr settings \<Rightarrow>
          Inr (JObj
             [(''version'', JStr ''1.0''),
              (''exportDate'', JStr (toISOString_now P)),
              (''data'', JObj
                 [(''students'', load_value P s),
                  (''blockedStudents'', blockedStudents),
                  (''departments'', departments),
                  (''customSubjects'', customSubjects),
                  (''settings'', settings)])])))))"
proof -
  obtain s1 where l: "loadStudents P s = (s1, Inr (load_value P s))"
    using loadStudents_result [of P s] by (cases "loadStudents P s") simp
  then have s1: "s1 = fst (loadStudents P s)" by simp
  have aux: "read_aux P s1 ''blockedStudents'' ''[]'' = read_aux P s ''blockedStudents'' ''[]''"
    "read_aux P s1 ''departments'' ''[]'' = read_aux P s ''departments'' ''[]''"
    "read_aux P s1 ''customSubjects'' ''{}'' = read_aux P s ''customSubjects'' ''{}''"
    "read_aux P s1 ''requiredSubjectSettings'' ''{}'' =
       read_aux P s ''requiredSubjectSettings'' ''{}''"
    unfolding s1 by (simp_all add: read_aux_after_load)
  show ?thesis
    by (simp add: exportData_def exportData_try_def l aux split: sum.splits)
qed

lemma import_fields_no_students:
  assumes "\<not> (truthy_val (get_prop data ''students'') \<and> isArray (get_prop data ''students''))"
  shows "import_fields P s data =
     (write_aux P (write_aux P (write_aux P (write_aux P s
          ''blockedStudents'' (get_prop data ''blockedStudents''))
          ''departments'' (get_prop data ''departments''))
          ''customSubjects'' (get_prop data ''customSubjects''))
          ''requiredSubjectSettings'' (get_prop data ''settings''), Inr True)"
  using assms by (auto simp add: import_fields_def Let_def)

lemma import_fields_students:
  assumes "get_prop data ''students'' = Some (JArr R)"
  shows "fst (import_fields P s data) =
     write_aux P (write_aux P (write_aux P (write_aux P (fst (saveStudents P s R))
          ''blockedStudents'' (get_prop data ''blockedStudents''))
          ''departments'' (get_prop data ''departments''))
          ''customSubjects'' (get_prop data ''customSubjects''))
          ''requiredSubjectSettings'' (get_prop data ''settings'')"
proof -
  obtain s1 b where sv: "saveStudents P s R = (s1, Inr b)"
    using saveStudents_result [of P s R] by (cases "saveStudents P s R") auto
  show ?thesis using assms by (simp add: import_fields_def Let_def sv)
qed

lemma importData_fields:
  assumes "truthy j" and "get_prop j ''data'' = Some data" and "truthy data"
  shows "importData P s (Some j) = import_fields P s data"
  using assms import_fields_result [of P s data]
  by (cases "import_fields P s data")
    (auto simp add: importData_def importData_try_def split: sum.splits)

lemma write_aux_other_key:
  "k' \<noteq> k \<Longrightarrow> localStorage (write_aux P s k v) k' = localStorage s k'"
  by (simp add: write_aux_fields split: option.splits)

lemma same_records_refl: "same_records v v"
  by (cases v) simp_all

lemma load_value_cong:
  assumes "db s' = db s" and "idb_students s' = idb_students s"
    and "localStorage s' ''students'' = localStorage s ''students''"
    and "sessionStorage s' ''students'' = sessionStorage s ''students''"
  shows "load_value P s' = load_value P s"
  using assms by (simp add: load_value_def primary_available_def)

lemma primary_available_after_load:
  "primary_available P (fst (loadStudents P s)) = primary_available P s"
  by (auto simp add: primary_available_def [of P "fst (loadStudents P s)"] loadStudents_db)
    (simp add: primary_available_def)

lemma load_after_load: "load_value P (fst (loadStudents P s)) = load_value P s"
  by (simp add: load_value_def [of P "fst (loadStudents P s)"] primary_available_after_load
      loadStudents_idb loadStudents_localStorage loadStudents_sessionStorage)
    (simp add: load_value_def)

lemma load_after_resave:
  assumes "load_value P s = JArr xs" and "roundtrips P (JArr xs)"
    and "primary_available P s \<longrightarrow> keyed_records xs"
  shows "same_records (JArr xs) (load_value P (fst (saveStudents P s xs)))"
proof -
  let ?s = "fst (saveStudents P s xs)"
  have ls: "localStorage ?s ''students'' = Some (JSON_stringify P (JArr xs))"
    by (simp add: saveStudents_localStorage)
  have flat: "flat_value P (localStorage ?s ''students'') ss = JArr xs" for ss
    using assms(2) ls by (simp add: roundtrips_flat_value)
  have pa: "primary_available P ?s = primary_available P s"
    by (auto simp add: primary_available_def [of P ?s] saveStudents_db)
      (simp add: primary_available_def)
  have idb: "idb_students ?s = (if primary_available P s then put_records [] xs else idb_students s)"
    by (simp add: saveStudents_idb)
  have lv: "load_value P ?s =
      (if primary_available P s
       then (if put_records [] xs \<noteq> [] then JArr (put_records [] xs) else JArr xs)
       else if indexedDB_supported P then JArr [] else JArr xs)"
    unfolding load_value_def [of P ?s] pa flat idb by simp
  show ?thesis
  proof (cases "primary_available P s")
    case True
    with assms(3) have "set (put_records [] xs) = set xs"
      by (simp add: put_records_keyed)
    then show ?thesis using True by (simp add: lv)
  next
    case False
    show ?thesis
    proof (cases "indexedDB_supported P")
      case True
      with False assms(1) have "xs = []" by (simp add: load_value_def)
      then show ?thesis unfolding lv using False True by simp
    next
      case False
      then show ?thesis using \<open>\<not> primary_available P s\<close> by (simp add: lv)
    qed
  qed
qed

text \<open>The four writes of \<^verbatim>\<open>importData\<close> after the records.\<close>

lemma aux_writes_fields:
  fixes P s b d c r
  defines "s' \<equiv> write_aux P (write_aux P (write_aux P (write_aux P s
          ''blockedStudents'' b) ''departments'' d) ''customSubjects'' c)
          ''requiredSubjectSettings'' r"
  shows "db s' = db s" and "idb_students s' = idb_students s"
    and "sessionStorage s' = sessionStorage s"
    and "localStorage s' ''students'' = localStorage s ''students''"
  unfolding s'_def by (simp_all add: write_aux_fields(1,2,3) write_aux_other_key)

lemma read_aux_written:
  assumes "read_aux P s key dflt = Inr v" and "truthy v \<longrightarrow> roundtrips P v"
  shows "read_aux P (write_aux P s key (Some v)) key dflt = Inr v"
  using assms by (simp add: read_aux_def write_aux_fields roundtrips_def)

lemma read_aux_write_other:
  "key' \<noteq> key \<Longrightarrow> read_aux P (write_aux P s key' v) key dflt = read_aux P s key dflt"
  by (simp add: read_aux_def write_aux_other_key)

lemma aux_writes_read:
  fixes P s b d c r
  defines "s' \<equiv> write_aux P (write_aux P (write_aux P (write_aux P s
          ''blockedStudents'' (Some b)) ''departments'' (Some d)) ''customSubjects'' (Some c))
          ''requiredSubjectSettings'' (Some r)"
  assumes "read_aux P s ''blockedStudents'' ''[]'' = Inr b" and "truthy b \<longrightarrow> roundtrips P b"
    and "read_aux P s ''departments'' ''[]'' = Inr d" and "truthy d \<longrightarrow> roundtrips P d"
    and "read_aux P s ''customSubjects'' ''{}'' = Inr c" and "truthy c \<longrightarrow> roundtrips P c"
    and "read_aux P s ''requiredSubjectSettings'' ''{}'' = Inr r"
    and "truthy r \<longrightarrow> roundtrips P r"
  shows "read_aux P s' ''blockedStudents'' ''[]'' = Inr b"
    and "read_aux P s' ''departments'' ''[]'' = Inr d"
    and "read_aux P s' ''customSubjects'' ''{}'' = Inr c"
    and "read_aux P s' ''requiredSubjectSettings'' ''{}'' = Inr r"
proof -
  let ?s1 = "write_aux P s ''blockedStudents'' (Some b)"
  let ?s2 = "write_aux P ?s1 ''departments'' (Some d)"
  let ?s3 = "write_aux P ?s2 ''customSubjects'' (Some c)"
  have b1: "read_aux P ?s1 ''blockedStudents'' ''[]'' = Inr b"
    using assms(2,3) by (rule read_aux_written)
  show "read_aux P s' ''blockedStudents'' ''[]'' = Inr b"
    unfolding s'_def using b1 by (simp add: read_aux_write_other)
  have "read_aux P ?s1 ''departments'' ''[]'' = Inr d"
    using assms(4) by (simp add: read_aux_write_other)
  then have d2: "read_aux P ?s2 ''departments'' ''[]'' = Inr d"
    using assms(5) by (rule read_aux_written)
  show "read_aux P s' ''departments'' ''[]'' = Inr d"
    unfolding s'_def using d2 by (simp add: read_aux_write_other)
  have "read_aux P ?s2 ''customSubjects'' ''{}'' = Inr c"
    using assms(6) by (simp add: read_aux_write_other)
  then have c3: "read_aux P ?s3 ''customSubjects'' ''{}'' = Inr c"
    using assms(7) by (rule read_aux_written)
  show "read_aux P s' ''customSubjects'' ''{}'' = Inr c"
    unfolding s'_def using c3 by (simp add: read_aux_write_other)
  have "read_aux P ?s3 ''requiredSubjectSettings'' ''{}'' = Inr r"
    using assms(8) by (simp add: read_aux_write_other)
  then show "read_aux P s' ''requiredSubjectSettings'' ''{}'' = Inr r"
    unfolding s'_def using assms(9) by (rule read_aux_written)
qed

lemma export_then_import_failed:
  assumes "snd (exportData P s) = Inl e"
  shows "export_then_import P s = (fst (loadStudents P s), Inl e)"
  using assms exportData_fst [of P s]
  by (cases "exportData P s") (simp add: export_then_import_def)

lemma export_then_import_done:
  assumes "snd (exportData P s) = Inr envelope"
  shows "export_then_import P s = importData P (fst (loadStudents P s)) (Some envelope)"
  using assms exportData_fst [of P s]
  by (cases "exportData P s") (simp add: export_then_import_def)

lemma exportData_done:
  assumes "snd (exportData P s) = Inr envelope"
  obtains b d c r where
    "read_aux P s ''blockedStudents'' ''[]'' = Inr b"
    "read_aux P s ''departments'' ''[]'' = Inr d"
    "read_aux P s ''customSubjects'' ''{}'' = Inr c"
    "read_aux P s ''requiredSubjectSettings'' ''{}'' = Inr r"
    "envelope = JObj
             [(''version'', JStr ''1.0''),
              (''exportDate'', JStr (toISOString_now P)),
              (''data'', JObj
                 [(''students'', load_value P s),
                  (''blockedStudents'', b),
                  (''departments'', d),
                  (''customSubjects'', c),
                  (''settings'', r)])]"
  using assms unfolding exportData_result
  by (auto split: sum.splits)

subsection \<open>The object store keeps its records apart\<close>

text \<open>
  Whatever is saved, the records of the object store have valid keys, and no two share
  one: \<^verbatim>\<open>put\<close> replaces the record of the same key.  Every call of the module keeps
  this, and a page that has stored nothing has it.
\<close>

lemma distinct_insert_record:
  "distinct (map key_of (insert_record k r rs)) \<longleftrightarrow>
     key_of r \<notin> key_of ` set rs \<and> distinct (map key_of rs)"
  by (induction rs) (auto simp add: set_insert_record)

lemma keyed_records_put:
  assumes "keyed_records st" and "key_of r = Some k"
  shows "keyed_records (insert_record k r (filter (\<lambda>x. key_of x \<noteq> Some k) st))"
  using assms
  by (auto simp add: keyed_records_def set_insert_record distinct_insert_record
      distinct_map_filter)

lemma keyed_records_put_records: "keyed_records st \<Longrightarrow> keyed_records (put_records st R)"
proof (induction R arbitrary: st)
  case Nil
  then show ?case by simp
next
  case (Cons r R)
  show ?case
  proof (cases "key_of r")
    case None
    with Cons.prems show ?thesis by simp
  next
    case (Some k)
    with Cons.IH [OF keyed_records_put [OF Cons.prems Some]] show ?thesis by simp
  qed
qed

lemma keyed_records_fresh: "keyed_records (idb_students fresh_state)"
  by (simp add: keyed_records_def fresh_state_def)

lemma keyed_records_saveStudents:
  "keyed_records (idb_students s) \<Longrightarrow> keyed_records (idb_students (fst (saveStudents P s R)))"
  using keyed_records_put_records [of "[]" R]
  by (simp add: saveStudents_idb) (simp add: keyed_records_def)

lemma keyed_records_loadStudents:
  "keyed_records (idb_students s) \<Longrightarrow> keyed_records (idb_students (fst (loadStudents P s)))"
  by (simp add: loadStudents_idb)

lemma keyed_records_exportData:
  "keyed_records (idb_students s) \<Longrightarrow> keyed_records (idb_students (fst (exportData P s)))"
  by (simp add: exportData_fst loadStudents_idb)

lemma import_fields_idb:
  "idb_students (fst (import_fields P s data)) =
     (if truthy_val (get_prop data ''students'') \<and> isArray (get_prop data ''students'')
      then idb_students (fst (saveStudents P s (elements (get_prop data ''students''))))
      else idb_students s)"
proof (cases "truthy_val (get_prop data ''students'') \<and> isArray (get_prop data ''students'')")
  case True
  then obtain R where R: "get_prop data ''students'' = Some (JArr R)"
    by (cases "get_prop data ''students''" rule: isArray.cases) auto
  show ?thesis
    using True by (simp add: import_fields_students [OF R] R aux_writes_fields(2))
next
  case False
  then show ?thesis
    by (auto simp add: import_fields_no_students [OF False] aux_writes_fields(2))
qed

lemma keyed_records_importData:
  assumes "keyed_records (idb_students s)"
  shows "keyed_records (idb_students (fst (importData P s jsonData)))"
proof -
  have fields: "keyed_records (idb_students (fst (import_fields P s data)))" for data
    using assms keyed_records_saveStudents [OF assms]
    by (simp add: import_fields_idb)
  show ?thesis
  proof (cases "truthy_val jsonData \<and>
      truthy_val (Option.bind jsonData (\<lambda>j. get_prop j ''data''))")
    case True
    then obtain j data where "jsonData = Some j" and "truthy j"
      and "get_prop j ''data'' = Some data" and "truthy data"
      by (cases jsonData; cases "Option.bind jsonData (\<lambda>j. get_prop j ''data'')") auto
    then show ?thesis
      using fields [of data] by (simp add: importData_fields)
  next
    case False
    then have "fst (importData P s jsonData) = s"
      by (auto simp add: importData_def importData_try_def split: option.splits)
    with assms show ?thesis by simp
  qed
qed

lemma keyed_records_generateShareableLink:
  assumes "keyed_records (idb_students s)"
  shows "keyed_records (idb_students (fst (generateShareableLink P s baseUrl)))"
proof -
  have "fst (generateShareableLink P s baseUrl) = fst (loadStudents P s)"
    by (simp add: generateShareableLink_def generateShareableLink_try_def Let_def
        split: prod.splits sum.splits)
  with assms show ?thesis by (simp add: loadStudents_idb)
qed

subsection \<open>What an import writes\<close>

text \<open>
  The object store after a full replacement, as a set, and the four writes of
  \<^verbatim>\<open>importData\<close> key by key.
\<close>

lemma put_records_last:
  "set (put_records st R) =
     {x \<in> set st. key_of x \<notin> set (map key_of (accepted R))} \<union> set (last_of_key (accepted R))"
proof (induction R arbitrary: st)
  case Nil
  show ?case by (simp add: accepted_def)
next
  case (Cons r R)
  show ?case
  proof (cases "key_of r")
    case None
    then show ?thesis by (simp add: accepted_def)
  next
    case (Some k)
    let ?st = "insert_record k r (filter (\<lambda>x. key_of x \<noteq> Some k) st)"
    have acc: "accepted (r # R) = r # accepted R"
      using Some by (simp add: accepted_def)
    have st: "set ?st = insert r {x \<in> set st. key_of x \<noteq> Some k}"
      by (simp add: set_insert_record)
    have "set (put_records st (r # R)) = set (put_records ?st R)"
      using Some by simp
    also have "\<dots> = {x \<in> set ?st. key_of x \<notin> set (map key_of (accepted R))}
        \<union> set (last_of_key (accepted R))"
      by (rule Cons.IH)
    also have "\<dots> = {x \<in> set st. key_of x \<notin> set (map key_of (accepted (r # R)))}
        \<union> set (last_of_key (accepted (r # R)))"
      unfolding acc st using Some
      by (cases "Some k \<in> key_of ` set (accepted R)") (auto simp add: image_iff)
    finally show ?thesis .
  qed
qed

lemma saveStudents_store:
  assumes "primary_available P s"
  shows "set (idb_students (fst (saveStudents P s R))) = set (last_of_key (accepted R))"
    and "keyed_records (idb_students (fst (saveStudents P s R)))"
proof -
  show "set (idb_students (fst (saveStudents P s R))) = set (last_of_key (accepted R))"
    using assms by (simp add: saveStudents_idb put_records_last)
  have "keyed_records []" by (simp add: keyed_records_def)
  from keyed_records_put_records [OF this, of R]
  show "keyed_records (idb_students (fst (saveStudents P s R)))"
    using assms by (simp add: saveStudents_idb)
qed

lemma aux_writes_localStorage:
  fixes P s data
  defines "s' \<equiv> write_aux P (write_aux P (write_aux P (write_aux P s
          ''blockedStudents'' (get_prop data ''blockedStudents''))
          ''departments'' (get_prop data ''departments''))
          ''customSubjects'' (get_prop data ''customSubjects''))
          ''requiredSubjectSettings'' (get_prop data ''settings'')"
  shows "\<forall>(key, field) \<in> set aux_fields.
           localStorage s' key =
             (if truthy_val (get_prop data field)
              then map_option (JSON_stringify P) (get_prop data field)
              else localStorage s key)"
    and "\<forall>key. key \<notin> set (map fst aux_fields) \<longrightarrow> localStorage s' key = localStorage s key"
    and "trace s' = trace s @ aux_events P data"
  unfolding s'_def
  by (auto simp add: aux_fields_def aux_events_def write_aux_fields split: option.splits)

lemma importData_failed:
  assumes "\<not> (truthy_val jsonData \<and> truthy_val (Option.bind jsonData (\<lambda>j. get_prop j ''data'')))"
  shows "importData P s jsonData = (s, Inl InvalidDataFormat)"
  using assms
  by (cases jsonData) (auto simp add: importData_def importData_try_def split: option.splits)

subsection \<open>The reference platform reads back what it writes\<close>

lemma hex_val_hex_char: "k < 16 \<Longrightarrow> hex_val (hex_char k) = Some k"
  by (auto simp add: hex_val_def hex_char_def Let_def)

lemma parse_chars_escape:
  "parse_chars (escape_char c @ rest) = map_option (\<lambda>(str, r). (c # str, r)) (parse_chars rest)"
proof -
  consider (quote) "c = CHR 0x22" | (backslash) "c = CHR 0x5C"
    | (b) "c = CHR 0x08" | (f) "c = CHR 0x0C" | (n) "c = CHR 0x0A"
    | (r) "c = CHR 0x0D" | (t) "c = CHR 0x09"
    | (control) "c \<noteq> CHR 0x22" "c \<noteq> CHR 0x5C" "c \<noteq> CHR 0x08" "c \<noteq> CHR 0x0C"
        "c \<noteq> CHR 0x0A" "c \<noteq> CHR 0x0D" "c \<noteq> CHR 0x09" "(of_char c :: nat) < 32"
    | (plain) "c \<noteq> CHR 0x22" "c \<noteq> CHR 0x5C" "\<not> (of_char c :: nat) < 32"
    by (cases "(of_char c :: nat) < 32") auto
  then show ?thesis
  proof cases
    case control
    have d: "(of_char c :: nat) div 16 < 16" "(of_char c :: nat) mod 16 < 16"
      using control(8) by simp_all
    have "char_of (16 * ((of_char c :: nat) div 16) + (of_char c :: nat) mod 16) = c"
      by simp
    moreover have "hex_val CHR ''0'' = Some 0"
      by (simp add: hex_val_def)
    ultimately show ?thesis using control d
      by (simp add: escape_char_def unicode_escape_def hex_val_hex_char)
  next
    case plain
    then show ?thesis
      by (auto simp add: escape_char_def)
  qed (simp_all add: escape_char_def unescape_def)
qed

lemma parse_chars_quote:
  "parse_chars (concat (map escape_char s) @ CHR 0x22 # rest) = Some (s, rest)"
  by (induction s) (simp_all add: parse_chars_escape)

declare show_nat.simps [simp del]

declare parse_value.simps [simp del] parse_elems.simps [simp del] parse_members.simps [simp del]

lemma of_char_digit_char: "n < 10 \<Longrightarrow> (of_char (digit_char n) :: nat) = 48 + n"
  by (simp add: digit_char_def)

lemma digit_char_digit:
  "n < 10 \<Longrightarrow> is_digit (digit_char n)"
  "n < 10 \<Longrightarrow> (of_char (digit_char n) :: nat) - 48 = n"
  by (simp_all add: is_digit_def of_char_digit_char)

lemma digit_char_zero: "n < 10 \<Longrightarrow> digit_char n = CHR ''0'' \<longleftrightarrow> n = 0"
proof
  assume "n < 10" and "digit_char n = CHR ''0''"
  then have "(of_char (digit_char n) :: nat) = of_char CHR ''0''" by simp
  with \<open>n < 10\<close> show "n = 0" by (simp add: of_char_digit_char)
next
  have "digit_char 0 = CHR ''0''" by code_simp
  moreover assume "n = 0"
  ultimately show "digit_char n = CHR ''0''" by simp
qed

lemma parse_digits_stop:
  "rest = [] \<or> \<not> is_digit (hd rest) \<Longrightarrow> parse_digits rest acc = (acc, rest)"
  by (cases rest) auto

lemma parse_digits_show_nat:
  "parse_digits (show_nat n @ rest) acc =
     parse_digits rest (acc * 10 ^ length (show_nat n) + n)"
proof (induction n arbitrary: rest acc rule: show_nat.induct)
  case (1 n)
  show ?case
  proof (cases "n < 10")
    case True
    then show ?thesis
      by (subst (1 2) show_nat.simps) (simp add: digit_char_digit mult.commute)
  next
    case False
    have "parse_digits (show_nat (n div 10) @ digit_char (n mod 10) # rest) acc =
        parse_digits (digit_char (n mod 10) # rest)
          (acc * 10 ^ length (show_nat (n div 10)) + n div 10)"
      using "1.IH" [OF False] .
    also have "\<dots> = parse_digits rest
        (10 * (acc * 10 ^ length (show_nat (n div 10)) + n div 10) + n mod 10)"
      by (simp add: digit_char_digit)
    also have "10 * (acc * 10 ^ length (show_nat (n div 10)) + n div 10) + n mod 10 =
        acc * 10 ^ Suc (length (show_nat (n div 10))) + n"
      by (simp add: algebra_simps)
    finally show ?thesis using False
      by (subst (1 2) show_nat.simps) simp
  qed
qed

lemma show_nat_head:
  "show_nat n = d # ds \<Longrightarrow> is_digit d \<and> (d = CHR ''0'' \<longrightarrow> n = 0 \<and> ds = [])"
proof (induction n arbitrary: d ds rule: show_nat.induct)
  case (1 n)
  show ?case
  proof (cases "n < 10")
    case True
    with "1.prems" show ?thesis
      by (subst (asm) show_nat.simps) (auto simp add: digit_char_digit digit_char_zero)
  next
    case False
    from "1.prems" False have eq: "show_nat (n div 10) @ [digit_char (n mod 10)] = d # ds"
      by (subst (asm) show_nat.simps) simp
    then obtain ds' where ds': "show_nat (n div 10) = d # ds'"
      by (cases "show_nat (n div 10)") (auto, subst (asm) show_nat.simps, auto split: if_splits)
    from "1.IH" [OF False ds'] False show ?thesis by auto
  qed
qed

lemma show_nat_not_empty: "show_nat n \<noteq> []"
  by (subst show_nat.simps) simp

lemma parse_nat_show_nat:
  assumes "rest = [] \<or> \<not> is_digit (hd rest)"
  shows "parse_nat (show_nat n @ rest) = Some (n, rest)"
proof -
  obtain d ds where eq: "show_nat n = d # ds"
    using show_nat_not_empty [of n] by (cases "show_nat n") auto
  from show_nat_head [OF eq] have digit: "is_digit d"
    and zero: "d = CHR ''0'' \<longrightarrow> n = 0 \<and> ds = []" by auto
  show ?thesis
  proof (cases "d = CHR ''0''")
    case True
    with zero assms eq digit show ?thesis
      by (cases rest) (simp_all add: parse_nat_def)
  next
    case False
    have "parse_digits (show_nat n @ rest) 0 = (n, rest)"
      using assms by (simp add: parse_digits_show_nat parse_digits_stop)
    with False digit eq show ?thesis
      by (simp add: parse_nat_def)
  qed
qed

lemma minus_not_digit: "\<not> is_digit CHR ''-''"
  by (simp add: is_digit_def)

lemma parse_number_show_int:
  assumes "rest = [] \<or> \<not> is_digit (hd rest)"
  shows "parse_number (show_int i @ rest) = Some (JNum i, rest)"
proof (cases "i < 0")
  case True
  then show ?thesis
    using parse_nat_show_nat [OF assms, of "nat (- i)"]
    by (simp add: parse_number_def show_int_def)
next
  case False
  obtain d ds where eq: "show_nat (nat i) = d # ds"
    using show_nat_not_empty [of "nat i"] by (cases "show_nat (nat i)") auto
  from show_nat_head [OF eq] have "is_digit d" by simp
  with minus_not_digit have "d \<noteq> CHR ''-''" by auto
  then show ?thesis
    using False eq parse_nat_show_nat [OF assms, of "nat i"]
    by (simp add: parse_number_def show_int_def)
qed

text \<open>The first character of a number.\<close>

lemma show_int_head:
  "\<exists>c cs. show_int i = c # cs \<and> (c = CHR ''-'' \<or> is_digit c)"
proof (cases "i < 0")
  case True
  then show ?thesis by (simp add: show_int_def)
next
  case False
  obtain d ds where eq: "show_nat (nat i) = d # ds"
    using show_nat_not_empty [of "nat i"] by (cases "show_nat (nat i)") auto
  from show_nat_head [OF eq] eq False show ?thesis by (simp add: show_int_def)
qed

lemma parse_value_number:
  assumes "rest = [] \<or> \<not> is_digit (hd rest)" and "0 < n"
  shows "parse_value n (show_int i @ rest) = Some (JNum i, rest)"
proof -
  obtain c cs where eq: "show_int i = c # cs" and c: "c = CHR ''-'' \<or> is_digit c"
    using show_int_head by blast
  from c have ne: "c \<noteq> CHR ''[''" "c \<noteq> CHR ''{''" "c \<noteq> CHR 0x22" "c \<noteq> CHR ''n''"
    "c \<noteq> CHR ''t''" "c \<noteq> CHR ''f''"
    by (auto simp add: is_digit_def)
  have "parse_value n (c # cs @ rest) = parse_number (c # cs @ rest)"
    using ne assms(2) by (subst parse_value.simps) simp
  then show ?thesis
    using parse_number_show_int [OF assms(1), of i] eq by simp
qed

lemma number_end_simps [simp]:
  "number_end []" "number_end (CHR '','' # rest)" "number_end (CHR '']'' # rest)"
  "number_end (CHR ''}'' # rest)"
  by (simp_all add: number_end_def is_digit_def)

lemma ref_stringify_head:
  "\<exists>c cs. ref_stringify v = c # cs \<and> c \<noteq> CHR '']''"
proof (cases v)
  case (JNum i)
  obtain c cs where "show_int i = c # cs" and "c = CHR ''-'' \<or> is_digit c"
    using show_int_head by blast
  then show ?thesis using JNum by (auto simp add: is_digit_def)
qed (auto simp add: quote_def)

lemma ref_stringify_elems_head:
  "xs \<noteq> [] \<Longrightarrow> \<exists>c cs. ref_stringify_elems xs = c # cs \<and> c \<noteq> CHR '']''"
proof -
  assume "xs \<noteq> []"
  then obtain x ys where xs: "xs = x # ys" by (cases xs) auto
  show ?thesis using ref_stringify_head [of x] xs by (cases ys) auto
qed

lemma ref_stringify_members_head:
  "ms \<noteq> [] \<Longrightarrow> \<exists>cs. ref_stringify_members ms = CHR 0x22 # cs"
proof -
  assume "ms \<noteq> []"
  then obtain k v ms' where ms: "ms = (k, v) # ms'" by (cases ms) auto
  show ?thesis using ms by (cases ms') (auto simp add: quote_def)
qed

lemma parse_value_null: "0 < n \<Longrightarrow>
    parse_value n (CHR ''n'' # CHR ''u'' # CHR ''l'' # CHR ''l'' # rest) = Some (JNull, rest)"
  by (subst parse_value.simps) simp

lemma parse_value_true: "0 < n \<Longrightarrow>
    parse_value n (CHR ''t'' # CHR ''r'' # CHR ''u'' # CHR ''e'' # rest) = Some (JBool True, rest)"
  by (subst parse_value.simps) simp

lemma parse_value_false: "0 < n \<Longrightarrow>
    parse_value n (CHR ''f'' # CHR ''a'' # CHR ''l'' # CHR ''s'' # CHR ''e'' # rest) =
      Some (JBool False, rest)"
  by (subst parse_value.simps) simp

lemma parse_value_string: "0 < n \<Longrightarrow> parse_value n (quote s @ rest) = Some (JStr s, rest)"
  by (subst parse_value.simps) (simp add: quote_def parse_chars_quote)

lemma parse_value_empty_array:
  "0 < n \<Longrightarrow> parse_value n (CHR ''['' # CHR '']'' # rest) = Some (JArr [], rest)"
  by (subst parse_value.simps) simp

lemma parse_value_empty_object:
  "0 < n \<Longrightarrow> parse_value n (CHR ''{'' # CHR ''}'' # rest) = Some (JObj [], rest)"
  by (subst parse_value.simps) simp

lemma parse_value_array:
  assumes "0 < n" and "xs \<noteq> []"
    and "parse_elems (n - 1) (ref_stringify_elems xs @ CHR '']'' # rest) = Some (xs, rest)"
  shows "parse_value n (CHR ''['' # ref_stringify_elems xs @ CHR '']'' # rest) =
      Some (JArr xs, rest)"
proof -
  obtain c cs where "ref_stringify_elems xs = c # cs" and "c \<noteq> CHR '']''"
    using ref_stringify_elems_head [OF assms(2)] by blast
  then show ?thesis using assms(1,3)
    by (subst parse_value.simps) simp
qed

lemma parse_value_object:
  assumes "0 < n" and "ms \<noteq> []"
    and "parse_members (n - 1) (ref_stringify_members ms @ CHR ''}'' # rest) = Some (ms, rest)"
  shows "parse_value n (CHR ''{'' # ref_stringify_members ms @ CHR ''}'' # rest) =
      Some (JObj ms, rest)"
proof -
  obtain cs where "ref_stringify_members ms = CHR 0x22 # cs"
    using ref_stringify_members_head [OF assms(2)] by blast
  then show ?thesis using assms(1,3)
    by (subst parse_value.simps) simp
qed

lemma parse_elems_last:
  assumes "0 < n" and "parse_value (n - 1) (t @ CHR '']'' # rest) = Some (x, CHR '']'' # rest)"
  shows "parse_elems n (t @ CHR '']'' # rest) = Some ([x], rest)"
  using assms by (subst parse_elems.simps) simp

lemma parse_elems_more:
  assumes "0 < n" and "parse_value (n - 1) (t @ CHR '','' # u) = Some (x, CHR '','' # u)"
    and "parse_elems (n - 1) u = Some (xs, rest)"
  shows "parse_elems n (t @ CHR '','' # u) = Some (x # xs, rest)"
  using assms by (subst parse_elems.simps) simp

lemma parse_members_key:
  "parse_chars (tl (quote k) @ rest) = Some (k, rest)"
  by (simp add: quote_def parse_chars_quote)

lemma parse_members_last:
  assumes "0 < n"
    and "parse_value (n - 1) (t @ CHR ''}'' # rest) = Some (v, CHR ''}'' # rest)"
  shows "parse_members n (quote k @ CHR '':'' # t @ CHR ''}'' # rest) = Some ([(k, v)], rest)"
  using assms
  by (subst parse_members.simps) (simp add: quote_def parse_chars_quote)

lemma parse_members_more:
  assumes "0 < n"
    and "parse_value (n - 1) (t @ CHR '','' # u) = Some (v, CHR '','' # u)"
    and "parse_members (n - 1) u = Some (ms, rest)"
  shows "parse_members n (quote k @ CHR '':'' # t @ CHR '','' # u) = Some ((k, v) # ms, rest)"
  using assms
  by (subst parse_members.simps) (simp add: quote_def parse_chars_quote)

lemma parse_stringify:
  "\<forall>n rest. nodes v \<le> n \<longrightarrow> number_end rest \<longrightarrow>
      parse_value n (ref_stringify v @ rest) = Some (v, rest)"
  "xs \<noteq> [] \<longrightarrow> (\<forall>n rest. nodes_elems xs \<le> n \<longrightarrow>
      parse_elems n (ref_stringify_elems xs @ CHR '']'' # rest) = Some (xs, rest))"
  "ms \<noteq> [] \<longrightarrow> (\<forall>n rest. nodes_members ms \<le> n \<longrightarrow>
      parse_members n (ref_stringify_members ms @ CHR ''}'' # rest) = Some (ms, rest))"
  "\<forall>n rest. nodes_member m \<le> n \<longrightarrow> number_end rest \<longrightarrow>
      parse_value n (ref_stringify (snd m) @ rest) = Some (snd m, rest)"
proof (induction v and xs and ms and m
    rule: ref_stringify_ref_stringify_elems_ref_stringify_members_ref_stringify_member.induct)
  case 1
  show ?case by (simp add: parse_value_null)
next
  case (2 b)
  show ?case using parse_value_true parse_value_false by (cases b) auto
next
  case (3 i)
  show ?case by (simp add: parse_value_number number_end_def)
next
  case (4 s)
  show ?case by (simp add: parse_value_string)
next
  case (5 xs)
  show ?case
  proof (intro allI impI)
    fix n rest
    assume n: "nodes (JArr xs) \<le> n"
    show "parse_value n (ref_stringify (JArr xs) @ rest) = Some (JArr xs, rest)"
    proof (cases "xs = []")
      case True
      with n parse_value_empty_array [of n rest] show ?thesis by simp
    next
      case False
      with 5 n have "parse_elems (n - 1) (ref_stringify_elems xs @ CHR '']'' # rest) =
          Some (xs, rest)" by simp
      with n False parse_value_array [of n xs rest] show ?thesis by simp
    qed
  qed
next
  case (6 ms)
  show ?case
  proof (intro allI impI)
    fix n rest
    assume n: "nodes (JObj ms) \<le> n"
    show "parse_value n (ref_stringify (JObj ms) @ rest) = Some (JObj ms, rest)"
    proof (cases "ms = []")
      case True
      with n parse_value_empty_object [of n rest] show ?thesis by simp
    next
      case False
      with 6 n have "parse_members (n - 1) (ref_stringify_members ms @ CHR ''}'' # rest) =
          Some (ms, rest)" by simp
      with n False parse_value_object [of n ms rest] show ?thesis by simp
    qed
  qed
next
  case 7
  show ?case by simp
next
  case (8 x)
  show ?case
  proof (intro allI impI)
    fix n rest
    assume n: "nodes_elems [x] \<le> n"
    with 8 have "parse_value (n - 1) (ref_stringify x @ CHR '']'' # rest) =
        Some (x, CHR '']'' # rest)" by simp
    with n parse_elems_last [of n "ref_stringify x" rest x]
    show "parse_elems n (ref_stringify_elems [x] @ CHR '']'' # rest) = Some ([x], rest)"
      by simp
  qed
next
  case (9 x y ys)
  show ?case
  proof (intro allI impI)
    fix n rest
    assume n: "nodes_elems (x # y # ys) \<le> n"
    let ?u = "ref_stringify_elems (y # ys) @ CHR '']'' # rest"
    from 9(1) n have "parse_value (n - 1) (ref_stringify x @ CHR '','' # ?u) =
        Some (x, CHR '','' # ?u)" by simp
    moreover from 9(2) n have "parse_elems (n - 1) ?u = Some (y # ys, rest)" by simp
    ultimately
    show "parse_elems n (ref_stringify_elems (x # y # ys) @ CHR '']'' # rest) =
        Some (x # y # ys, rest)"
      using n parse_elems_more [of n "ref_stringify x" ?u x "y # ys" rest] by simp
  qed
next
  case 10
  show ?case by simp
next
  case (11 m)
  show ?case
  proof (intro allI impI)
    fix n rest
    assume n: "nodes_members [m] \<le> n"
    obtain k v where m: "m = (k, v)" by (cases m)
    with 11 n have "parse_value (n - 1) (ref_stringify v @ CHR ''}'' # rest) =
        Some (v, CHR ''}'' # rest)" by simp
    with n m parse_members_last [of n "ref_stringify v" rest v k]
    show "parse_members n (ref_stringify_members [m] @ CHR ''}'' # rest) = Some ([m], rest)"
      by simp
  qed
next
  case (12 m m' ms)
  show ?case
  proof (intro allI impI)
    fix n rest
    assume n: "nodes_members (m # m' # ms) \<le> n"
    obtain k v where m: "m = (k, v)" by (cases m)
    let ?u = "ref_stringify_members (m' # ms) @ CHR ''}'' # rest"
    from 12(1) n m have "parse_value (n - 1) (ref_stringify v @ CHR '','' # ?u) =
        Some (v, CHR '','' # ?u)" by simp
    moreover from 12(2) n have "parse_members (n - 1) ?u = Some (m' # ms, rest)" by simp
    ultimately
    show "parse_members n (ref_stringify_members (m # m' # ms) @ CHR ''}'' # rest) =
        Some (m # m' # ms, rest)"
      using n m parse_members_more [of n "ref_stringify v" ?u v "m' # ms" rest k] by simp
  qed
next
  case (13 k v)
  then show ?case by simp
qed

lemma nodes_le_length:
  "nodes v \<le> length (ref_stringify v)"
  "nodes_elems xs \<le> length (ref_stringify_elems xs) + 1"
  "nodes_members ms \<le> length (ref_stringify_members ms) + 1"
  "nodes_member m \<le> length (ref_stringify_member m)"
proof (induction v and xs and ms and m
    rule: ref_stringify_ref_stringify_elems_ref_stringify_members_ref_stringify_member.induct)
  case (3 i)
  obtain c cs where "show_int i = c # cs" using show_int_head by blast
  then show ?case by simp
next
  case (4 s)
  show ?case by (simp add: quote_def)
qed auto

lemma reference_platform_roundtrips: "roundtrips (reference_platform supported opens) v"
proof -
  have "parse_value (Suc (length (ref_stringify v))) (ref_stringify v @ []) = Some (v, [])"
    using parse_stringify(1) [of v, rule_format, of "Suc (length (ref_stringify v))" "[]"]
      nodes_le_length(1) [of v] by simp
  then have "ref_parse (ref_stringify v) = Inr v"
    by (simp add: ref_parse_def)
  moreover have "ref_stringify v \<noteq> []"
    using ref_stringify_head [of v] by auto
  ultimately show ?thesis
    by (simp add: roundtrips_def reference_platform_def)
qed

lemma length_escaped: "length s \<le> length (concat (map escape_char s))"
proof (induction s)
  case Nil
  show ?case by simp
next
  case (Cons c s)
  have "1 \<le> length (escape_char c)" by (simp add: escape_char_def)
  with Cons show ?case by simp
qed

lemma length_quote: "length s + 2 \<le> length (quote s)"
  using length_escaped [of s] by (simp add: quote_def)

section \<open>The claims\<close>

subsection \<open>Save, then load\<close>

text \<open>
  Claim C1, as amended.  When the transactional tier is available and every record of
  \<open>R\<close> carries a valid \<^verbatim>\<open>id\<close>, the key path of the object store, and no two records
  share one, \<^verbatim>\<open>loadStudents()\<close> after \<^verbatim>\<open>saveStudents(R)\<close> returns an array holding the
  records of \<open>R\<close>, as a set.  The calls follow each other on the same state, so that no
  other writer comes between them.  \<^verbatim>\<open>JSON.parse\<close> is taken to read back what
  \<^verbatim>\<open>JSON.stringify\<close> wrote for \<open>R\<close>: the empty array is loaded from the flat tier, since
  an empty object store counts as nothing.
\<close>

theorem saveStudents_loadStudents_roundtrip:
  assumes "primary_available P s" and "keyed_records R" and "roundtrips P (JArr R)"
  shows "record_set (snd (loadStudents P (fst (saveStudents P s R)))) = Some (set R)"
proof -
  let ?s = "fst (saveStudents P s R)"
  have avail: "primary_available P ?s"
    using assms(1) by (simp add: primary_available_def [of P ?s] saveStudents_db)
  have idb: "idb_students ?s = put_records [] R"
    using assms(1) by (simp add: saveStudents_idb)
  have content: "set (put_records [] R) = set R"
    using assms(2) by (rule put_records_keyed)
  show ?thesis
  proof (cases "put_records [] R = []")
    case True
    with content have "R = []" by simp
    moreover have "localStorage ?s ''students'' = Some (JSON_stringify P (JArr R))"
      by (simp add: saveStudents_localStorage)
    ultimately show ?thesis
      using avail idb True assms(3)
      by (simp add: loadStudents_result load_value_def roundtrips_flat_value)
  next
    case False
    then show ?thesis
      using avail idb content by (simp add: loadStudents_result load_value_def)
  qed
qed

text \<open>The claim on the reference platform, for two students saved out of key order.\<close>

theorem saveStudents_loadStudents_roundtrip_witness:
  "primary_available (reference_platform True True) fresh_state
   \<and> keyed_records [bo, ada]
   \<and> roundtrips (reference_platform True True) (JArr [bo, ada])
   \<and> record_set (snd (loadStudents (reference_platform True True)
        (fst (saveStudents (reference_platform True True) fresh_state [bo, ada]))))
      = Some (set [bo, ada])"
proof -
  have h1: "primary_available (reference_platform True True) fresh_state" by code_simp
  have h2: "keyed_records [bo, ada]" by code_simp
  have h3: "roundtrips (reference_platform True True) (JArr [bo, ada])" by code_simp
  from h1 h2 h3 saveStudents_loadStudents_roundtrip [OF h1 h2 h3] show ?thesis by (intro conjI)
qed

text \<open>
  Claim C1 as it was stated, for every array, fails in two ways.  Of two records that
  share an \<^verbatim>\<open>id\<close> the second replaces the first in the object store, and only the second
  is loaded.  And \<^verbatim>\<open>store.put\<close> throws on a record without an \<^verbatim>\<open>id\<close>: the records put
  before it stay in the store, \<^verbatim>\<open>saveStudents\<close> returns \<^verbatim>\<open>false\<close>, and only those records
  are loaded.
\<close>

theorem saveStudents_loadStudents_lost_records:
  "primary_available (reference_platform True True) fresh_state
   \<and> snd (loadStudents (reference_platform True True)
        (fst (saveStudents (reference_platform True True) fresh_state [ada, eve])))
      = Inr (JArr [eve])
   \<and> record_set (snd (loadStudents (reference_platform True True)
        (fst (saveStudents (reference_platform True True) fresh_state [ada, eve]))))
      \<noteq> Some (set [ada, eve])
   \<and> snd (saveStudents (reference_platform True True) fresh_state [ada, nameless]) = Inr False
   \<and> snd (loadStudents (reference_platform True True)
        (fst (saveStudents (reference_platform True True) fresh_state [ada, nameless])))
      = Inr (JArr [ada])
   \<and> record_set (snd (loadStudents (reference_platform True True)
        (fst (saveStudents (reference_platform True True) fresh_state [ada, nameless]))))
      \<noteq> Some (set [ada, nameless])"
  by code_simp

text \<open>
  Claim C2.  Without IndexedDB (\<^verbatim>\<open>window.indexedDB\<close> is missing and \<^verbatim>\<open>db\<close> is
  \<^verbatim>\<open>null\<close>), \<^verbatim>\<open>saveStudents(R)\<close> returns \<^verbatim>\<open>true\<close>, \<^verbatim>\<open>db\<close> stays \<^verbatim>\<open>null\<close>,
  \<^verbatim>\<open>localStorage\<close> holds the text of \<open>R\<close> under \<^verbatim>\<open>students\<close>, and \<^verbatim>\<open>loadStudents()\<close>
  then returns \<open>R\<close> whatever the session tier holds: the records come from the durable
  flat tier.
\<close>

theorem saveStudents_loadStudents_without_indexedDB:
  assumes "\<not> indexedDB_supported P" and "\<not> db s" and "roundtrips P (JArr R)"
  shows "snd (saveStudents P s R) = Inr True
       \<and> \<not> db (fst (saveStudents P s R))
       \<and> localStorage (fst (saveStudents P s R)) ''students'' = Some (JSON_stringify P (JArr R))
       \<and> snd (loadStudents P (fst (saveStudents P s R)\<lparr>sessionStorage := ss\<rparr>)) = Inr (JArr R)"
proof -
  let ?s = "fst (saveStudents P s R)"
  have na: "\<not> primary_available P s"
    using assms(1,2) by (simp add: primary_available_def)
  have db: "\<not> db ?s" using na by (simp add: saveStudents_db)
  have ls: "localStorage ?s ''students'' = Some (JSON_stringify P (JArr R))"
    by (simp add: saveStudents_localStorage)
  have "load_value P (?s\<lparr>sessionStorage := ss\<rparr>) = JArr R"
    using assms(1,3) db ls
    by (simp add: load_value_def primary_available_def roundtrips_flat_value)
  then show ?thesis
    using na assms(1) db ls by (simp add: saveStudents_result loadStudents_result)
qed

theorem saveStudents_loadStudents_without_indexedDB_witness:
  "\<not> indexedDB_supported (reference_platform False False)
   \<and> \<not> db fresh_state
   \<and> roundtrips (reference_platform False False) (JArr [bo, ada])
   \<and> snd (saveStudents (reference_platform False False) fresh_state [bo, ada]) = Inr True
   \<and> \<not> db (fst (saveStudents (reference_platform False False) fresh_state [bo, ada]))
   \<and> localStorage (fst (saveStudents (reference_platform False False) fresh_state [bo, ada]))
        ''students'' = Some (JSON_stringify (reference_platform False False) (JArr [bo, ada]))
   \<and> snd (loadStudents (reference_platform False False)
        (fst (saveStudents (reference_platform False False) fresh_state [bo, ada])
           \<lparr>sessionStorage := Map.empty\<rparr>)) = Inr (JArr [bo, ada])"
proof -
  have h1: "\<not> indexedDB_supported (reference_platform False False)" by code_simp
  have h2: "\<not> db fresh_state" by code_simp
  have h3: "roundtrips (reference_platform False False) (JArr [bo, ada])" by code_simp
  from h1 h2 h3 saveStudents_loadStudents_without_indexedDB [OF h1 h2 h3, of Map.empty]
    show ?thesis by (intro conjI) blast+
qed

subsection \<open>Read repair\<close>

text \<open>
  Claim C3, as amended.  If the transactional tier is available and holds the records
  \<open>R\<close>, and \<open>R\<close> is not empty, and \<^verbatim>\<open>localStorage\<close> has nothing under \<^verbatim>\<open>students\<close>, then
  \<^verbatim>\<open>loadStudents()\<close> returns \<open>R\<close> and \<^verbatim>\<open>localStorage\<close> holds the text of \<open>R\<close> under
  \<^verbatim>\<open>students\<close> afterwards.
\<close>

theorem loadStudents_read_repair:
  assumes "primary_available P s" and "idb_students s = R" and "R \<noteq> []"
    and "localStorage s ''students'' = None"
  shows "snd (loadStudents P s) = Inr (JArr R)
       \<and> localStorage (fst (loadStudents P s)) ''students'' = Some (JSON_stringify P (JArr R))"
  using assms(1,2,3) by (simp add: loadStudents_result load_value_def loadStudents_localStorage)

theorem loadStudents_read_repair_witness:
  "primary_available (reference_platform True True) (fresh_state\<lparr>idb_students := [ada, bo]\<rparr>)
   \<and> idb_students (fresh_state\<lparr>idb_students := [ada, bo]\<rparr>) = [ada, bo]
   \<and> [ada, bo] \<noteq> []
   \<and> localStorage (fresh_state\<lparr>idb_students := [ada, bo]\<rparr>) ''students'' = None
   \<and> snd (loadStudents (reference_platform True True) (fresh_state\<lparr>idb_students := [ada, bo]\<rparr>))
       = Inr (JArr [ada, bo])
   \<and> localStorage (fst (loadStudents (reference_platform True True)
         (fresh_state\<lparr>idb_students := [ada, bo]\<rparr>))) ''students''
       = Some (JSON_stringify (reference_platform True True) (JArr [ada, bo]))"
proof -
  let ?s = "fresh_state\<lparr>idb_students := [ada, bo]\<rparr>"
  have h1: "primary_available (reference_platform True True) ?s" by code_simp
  have h2: "idb_students ?s = [ada, bo]" by code_simp
  have h3: "[ada, bo] \<noteq> []" by simp
  have h4: "localStorage ?s ''students'' = None" by code_simp
  from h1 h2 h3 h4 loadStudents_read_repair [OF h1 h2 h3 h4] show ?thesis by (intro conjI) blast+
qed

text \<open>
  Claim C3 as it was stated, for every \<open>R\<close>, fails for the empty set of records: the
  guard \<^verbatim>\<open>students.length > 0\<close> skips the write, and \<^verbatim>\<open>localStorage\<close> still has nothing
  under \<^verbatim>\<open>students\<close> after the call.
\<close>

theorem loadStudents_read_repair_empty_store:
  "primary_available (reference_platform True True) fresh_state
   \<and> idb_students fresh_state = []
   \<and> localStorage fresh_state ''students'' = None
   \<and> snd (loadStudents (reference_platform True True) fresh_state) = Inr (JArr [])
   \<and> localStorage (fst (loadStudents (reference_platform True True) fresh_state)) ''students''
       \<noteq> Some (JSON_stringify (reference_platform True True) (JArr []))"
  by code_simp

subsection \<open>Export, then import\<close>

text \<open>
  Claim C4, as amended.  \<^verbatim>\<open>importData(await exportData())\<close> returns \<^verbatim>\<open>true\<close> whenever
  \<^verbatim>\<open>exportData\<close> does not throw.  Afterwards each of the four auxiliary keys, read the
  way \<^verbatim>\<open>exportData\<close> reads it (nothing and the empty text count as the default), parses
  to the same value as before; and \<^verbatim>\<open>loadStudents()\<close> returns a value that agrees with
  the value it returned before: an array of the same records as a set, or the same
  value when that is not an array.  \<^verbatim>\<open>JSON.parse\<close> is taken to read back what
  \<^verbatim>\<open>JSON.stringify\<close> writes for the loaded array and for the truthy auxiliary values;
  and when the transactional tier is available, the loaded records carry valid
  \<^verbatim>\<open>id\<close>s, no two the same, which the records of the object store always do (lemma
  \<open>keyed_records_put_records\<close>).
\<close>

theorem export_import_roundtrip:
  assumes "snd (loadStudents P s) = Inr v0"
    and "isArray (Some v0) \<longrightarrow> roundtrips P v0"
    and "primary_available P s \<longrightarrow> keyed_records (elements (Some v0))"
    and "\<forall>(k, d) \<in> set aux_keys.
           case read_aux P s k d of Inl e \<Rightarrow> True | Inr v \<Rightarrow> truthy v \<longrightarrow> roundtrips P v"
  shows "(\<not> isl (snd (exportData P s)) \<longrightarrow> snd (export_then_import P s) = Inr True)
       \<and> (\<forall>(k, d) \<in> set aux_keys.
            read_aux P (fst (export_then_import P s)) k d = read_aux P s k d)
       \<and> same_result (snd (loadStudents P s))
            (snd (loadStudents P (fst (export_then_import P s))))"
proof -
  let ?s1 = "fst (loadStudents P s)"
  have v0: "load_value P s = v0"
    using assms(1) by (simp add: loadStudents_result)
  show ?thesis
  proof (cases "snd (exportData P s)")
    case (Inl e)
    have eq: "fst (export_then_import P s) = ?s1"
      by (simp add: export_then_import_failed [OF Inl])
    have "read_aux P ?s1 k d = read_aux P s k d" if "(k, d) \<in> set aux_keys" for k d
      using that by (auto simp add: aux_keys_def read_aux_after_load)
    moreover have "same_result (snd (loadStudents P s)) (snd (loadStudents P ?s1))"
      by (simp add: loadStudents_result load_after_load same_records_refl)
    ultimately show ?thesis using Inl eq by auto
  next
    case (Inr envelope)
    from exportData_done [OF Inr] obtain b d c r where
      aux: "read_aux P s ''blockedStudents'' ''[]'' = Inr b"
        "read_aux P s ''departments'' ''[]'' = Inr d"
        "read_aux P s ''customSubjects'' ''{}'' = Inr c"
        "read_aux P s ''requiredSubjectSettings'' ''{}'' = Inr r"
      and env: "envelope = JObj
             [(''version'', JStr ''1.0''),
              (''exportDate'', JStr (toISOString_now P)),
              (''data'', JObj
                 [(''students'', v0),
                  (''blockedStudents'', b),
                  (''departments'', d),
                  (''customSubjects'', c),
                  (''settings'', r)])]"
      unfolding v0 by blast
    let ?data = "JObj
                 [(''students'', v0),
                  (''blockedStudents'', b),
                  (''departments'', d),
                  (''customSubjects'', c),
                  (''settings'', r)]"
    define s2 where "s2 = (if isArray (Some v0)
        then fst (saveStudents P ?s1 (elements (Some v0))) else ?s1)"
    let ?s' = "write_aux P (write_aux P (write_aux P (write_aux P s2
          ''blockedStudents'' (Some b)) ''departments'' (Some d)) ''customSubjects'' (Some c))
          ''requiredSubjectSettings'' (Some r)"
    have imp: "export_then_import P s = import_fields P ?s1 ?data"
      unfolding export_then_import_done [OF Inr] env
      by (rule importData_fields) simp_all
    have result: "snd (export_then_import P s) = Inr True"
      unfolding imp by (rule import_fields_result)
    have state: "fst (export_then_import P s) = ?s'"
    proof (cases "isArray (Some v0)")
      case True
      then obtain xs where xs: "v0 = JArr xs" by (cases v0) simp_all
      have "get_prop ?data ''students'' = Some (JArr xs)" using xs by simp
      from import_fields_students [OF this, of P ?s1] show ?thesis
        unfolding imp s2_def using xs by simp
    next
      case False
      then have "\<not> (truthy_val (get_prop ?data ''students'')
          \<and> isArray (get_prop ?data ''students''))" by simp
      from import_fields_no_students [OF this, of P ?s1] show ?thesis
        unfolding imp s2_def using False by simp
    qed
    have ls2: "localStorage s2 k = localStorage s k" if "k \<noteq> ''students''" for k
      using that
      by (simp add: s2_def saveStudents_localStorage loadStudents_localStorage)
    have aux2: "read_aux P s2 ''blockedStudents'' ''[]'' = Inr b"
        "read_aux P s2 ''departments'' ''[]'' = Inr d"
        "read_aux P s2 ''customSubjects'' ''{}'' = Inr c"
        "read_aux P s2 ''requiredSubjectSettings'' ''{}'' = Inr r"
      using aux by (simp_all add: read_aux_def ls2)
    have rt: "truthy b \<longrightarrow> roundtrips P b" "truthy d \<longrightarrow> roundtrips P d"
        "truthy c \<longrightarrow> roundtrips P c" "truthy r \<longrightarrow> roundtrips P r"
      using assms(4) aux by (auto simp add: aux_keys_def)
    note after = aux_writes_read [OF aux2(1) rt(1) aux2(2) rt(2) aux2(3) rt(3) aux2(4) rt(4)]
    have auxs: "read_aux P ?s' k dflt = read_aux P s k dflt" if "(k, dflt) \<in> set aux_keys"
      for k dflt
      using that after aux by (auto simp add: aux_keys_def)
    have "load_value P ?s' = load_value P s2"
      by (rule load_value_cong) (simp_all add: aux_writes_fields)
    moreover have "same_records v0 (load_value P s2)"
    proof (cases "isArray (Some v0)")
      case True
      then obtain xs where xs: "v0 = JArr xs" by (cases v0) simp_all
      have "same_records (JArr xs) (load_value P (fst (saveStudents P ?s1 xs)))"
      proof (rule load_after_resave)
        show "load_value P ?s1 = JArr xs" using v0 xs by (simp add: load_after_load)
        show "roundtrips P (JArr xs)" using assms(2) xs by simp
        show "primary_available P ?s1 \<longrightarrow> keyed_records xs"
          using assms(3) xs by (simp add: primary_available_after_load)
      qed
      then show ?thesis using xs by (simp add: s2_def)
    next
      case False
      then show ?thesis
        by (simp add: s2_def load_after_load v0 same_records_refl)
    qed
    ultimately have "same_result (snd (loadStudents P s)) (snd (loadStudents P ?s'))"
      by (simp add: loadStudents_result v0)
    with result auxs show ?thesis unfolding state by auto
  qed
qed

theorem export_import_roundtrip_witness:
  "snd (loadStudents (reference_platform True True) stored_state) = Inr (JArr [bo, ada])
   \<and> roundtrips (reference_platform True True) (JArr [bo, ada])
   \<and> keyed_records [bo, ada]
   \<and> snd (export_then_import (reference_platform True True) stored_state) = Inr True
   \<and> read_aux (reference_platform True True)
        (fst (export_then_import (reference_platform True True) stored_state))
        ''departments'' ''[]'' = read_aux (reference_platform True True) stored_state ''departments'' ''[]''
   \<and> read_aux (reference_platform True True)
        (fst (export_then_import (reference_platform True True) stored_state))
        ''blockedStudents'' ''[]'' = read_aux (reference_platform True True) stored_state ''blockedStudents'' ''[]''
   \<and> same_result (snd (loadStudents (reference_platform True True) stored_state))
        (snd (loadStudents (reference_platform True True)
           (fst (export_then_import (reference_platform True True) stored_state))))"
proof -
  let ?P = "reference_platform True True"
  have h1: "snd (loadStudents ?P stored_state) = Inr (JArr [bo, ada])" by code_simp
  have rt: "roundtrips ?P (JArr [bo, ada])" by code_simp
  have keyed: "keyed_records [bo, ada]" by code_simp
  have h2: "isArray (Some (JArr [bo, ada])) \<longrightarrow> roundtrips ?P (JArr [bo, ada])"
    using rt by simp
  have h3: "primary_available ?P stored_state \<longrightarrow> keyed_records (elements (Some (JArr [bo, ada])))"
    using keyed by simp
  have h4: "\<forall>(k, d) \<in> set aux_keys.
      case read_aux ?P stored_state k d of Inl e \<Rightarrow> True
      | Inr v \<Rightarrow> truthy v \<longrightarrow> roundtrips ?P v" by code_simp
  have ok: "\<not> isl (snd (exportData ?P stored_state))" by code_simp
  have m1: "(''departments'', ''[]'') \<in> set aux_keys"
    and m2: "(''blockedStudents'', ''[]'') \<in> set aux_keys"
    by (simp_all add: aux_keys_def)
  from export_import_roundtrip [OF h1 h2 h3 h4] ok m1 m2
  have "snd (export_then_import ?P stored_state) = Inr True"
    and "read_aux ?P (fst (export_then_import ?P stored_state)) ''departments'' ''[]''
          = read_aux ?P stored_state ''departments'' ''[]''"
    and "read_aux ?P (fst (export_then_import ?P stored_state)) ''blockedStudents'' ''[]''
          = read_aux ?P stored_state ''blockedStudents'' ''[]''"
    and "same_result (snd (loadStudents ?P stored_state))
        (snd (loadStudents ?P (fst (export_then_import ?P stored_state))))"
    by blast+
  with h1 rt keyed show ?thesis by (intro conjI)
qed

text \<open>
  Claim C4 as it was stated fails in three ways.  On a page that has stored nothing,
  \<^verbatim>\<open>localStorage\<close> has nothing under \<^verbatim>\<open>blockedStudents\<close> before and the text \<^verbatim>\<open>[]\<close>
  after: \<^verbatim>\<open>exportData\<close> reads the default and \<^verbatim>\<open>importData\<close> writes it, an array being
  truthy.  When the records come from the flat tier in another order than that of their
  keys, the import puts them into the object store, and \<^verbatim>\<open>loadStudents()\<close> returns them
  in key order afterwards.  And when two of those records share an \<^verbatim>\<open>id\<close>, the object
  store keeps the second only, and \<^verbatim>\<open>loadStudents()\<close> returns that one.
\<close>

theorem export_import_changes_storage:
  "localStorage fresh_state ''blockedStudents'' = None
   \<and> localStorage (fst (export_then_import (reference_platform True True) fresh_state))
        ''blockedStudents'' = Some ''[]''
   \<and> snd (loadStudents (reference_platform True True) stored_state) = Inr (JArr [bo, ada])
   \<and> snd (loadStudents (reference_platform True True)
        (fst (export_then_import (reference_platform True True) stored_state)))
       = Inr (JArr [ada, bo])
   \<and> snd (loadStudents (reference_platform True True) twin_state) = Inr (JArr [ada, eve])
   \<and> snd (loadStudents (reference_platform True True)
        (fst (export_then_import (reference_platform True True) twin_state)))
       = Inr (JArr [eve])"
  by code_simp

subsection \<open>The flat tier is written first and last\<close>

text \<open>
  Claim C5.  The first two effects of \<^verbatim>\<open>saveStudents(R)\<close> are the writes of the text of
  \<open>R\<close> under \<^verbatim>\<open>students\<close> to \<^verbatim>\<open>localStorage\<close> and to \<^verbatim>\<open>sessionStorage\<close>, before any
  effect on the object store.  The call returns \<^verbatim>\<open>true\<close> or \<^verbatim>\<open>false\<close>, and
  \<^verbatim>\<open>localStorage\<close> holds the text of \<open>R\<close> under \<^verbatim>\<open>students\<close> afterwards in either case.
  When the \<^verbatim>\<open>try\<close> block throws, the call returns \<^verbatim>\<open>false\<close> and its last effect is the
  write to \<^verbatim>\<open>localStorage\<close> again.
\<close>

theorem saveStudents_flat_write_first:
  "take 2 (drop (length (trace s)) (trace (fst (saveStudents P s R)))) =
     [LocalSet ''students'' (JSON_stringify P (JArr R)),
      SessionSet ''students'' (JSON_stringify P (JArr R))]
   \<and> localStorage (fst (saveStudents P s R)) ''students'' = Some (JSON_stringify P (JArr R))
   \<and> (snd (saveStudents P s R) = Inr True \<or> snd (saveStudents P s R) = Inr False)
   \<and> (isl (snd (saveStudents_try P s R)) \<longrightarrow>
        snd (saveStudents P s R) = Inr False
        \<and> last (trace (fst (saveStudents P s R))) =
            LocalSet ''students'' (JSON_stringify P (JArr R)))"
proof -
  obtain evs where "trace (fst (saveStudents_try P s R)) =
     trace s @ LocalSet ''students'' (JSON_stringify P (JArr R))
             # SessionSet ''students'' (JSON_stringify P (JArr R)) # evs"
    using saveStudents_try_trace by blast
  then have first: "take 2 (drop (length (trace s)) (trace (fst (saveStudents P s R)))) =
     [LocalSet ''students'' (JSON_stringify P (JArr R)),
      SessionSet ''students'' (JSON_stringify P (JArr R))]"
    by (simp add: saveStudents_trace)
  have durable: "localStorage (fst (saveStudents P s R)) ''students'' =
      Some (JSON_stringify P (JArr R))"
    by (simp add: saveStudents_localStorage)
  have result: "snd (saveStudents P s R) = Inr True \<or> snd (saveStudents P s R) = Inr False"
    by (simp add: saveStudents_result)
  have thrown: "snd (saveStudents P s R) = Inr False
      \<and> last (trace (fst (saveStudents P s R))) =
            LocalSet ''students'' (JSON_stringify P (JArr R))"
    if "isl (snd (saveStudents_try P s R))"
    using that by (simp add: saveStudents_trace) (auto simp: saveStudents_fst_snd split: sum.splits)
  from first durable result thrown show ?thesis by blast
qed

text \<open>The open request fails: the \<^verbatim>\<open>try\<close> block throws.\<close>

theorem saveStudents_flat_write_first_witness:
  "isl (snd (saveStudents_try (reference_platform True False) fresh_state [ada]))
   \<and> take 2 (drop (length (trace fresh_state))
        (trace (fst (saveStudents (reference_platform True False) fresh_state [ada])))) =
     [LocalSet ''students'' (JSON_stringify (reference_platform True False) (JArr [ada])),
      SessionSet ''students'' (JSON_stringify (reference_platform True False) (JArr [ada]))]
   \<and> localStorage (fst (saveStudents (reference_platform True False) fresh_state [ada]))
        ''students'' = Some (JSON_stringify (reference_platform True False) (JArr [ada]))
   \<and> snd (saveStudents (reference_platform True False) fresh_state [ada]) = Inr False
   \<and> last (trace (fst (saveStudents (reference_platform True False) fresh_state [ada]))) =
        LocalSet ''students'' (JSON_stringify (reference_platform True False) (JArr [ada]))"
proof -
  have h: "isl (snd (saveStudents_try (reference_platform True False) fresh_state [ada]))"
    by code_simp
  from h saveStudents_flat_write_first [of fresh_state "reference_platform True False" "[ada]"]
    show ?thesis
    by (intro conjI) blast+
qed

subsection \<open>Text that does not parse\<close>



subsection \<open>The shareable link\<close>

text \<open>
  Claim C7.  For the value that \<^verbatim>\<open>loadStudents()\<close> returns: when its text is longer than
  50 000 characters, \<^verbatim>\<open>generateShareableLink\<close> returns \<^verbatim>\<open>null\<close>; when it is not, and
  \<^verbatim>\<open>encodeURIComponent\<close> returns the encoded text, the call returns the base URL (by
  default \<^verbatim>\<open>student_search.html\<close>), then \<^verbatim>\<open>?students=\<close>, then the encoded text.
\<close>

theorem generateShareableLink_size_guard:
  assumes "snd (loadStudents P s) = Inr students"
  shows "(50000 < length (JSON_stringify P students) \<longrightarrow>
            snd (generateShareableLink P s baseUrl) = Inr None)
       \<and> (length (JSON_stringify P students) \<le> 50000 \<longrightarrow>
          encodeURIComponent P (JSON_stringify P students) = Inr encodedData \<longrightarrow>
            snd (generateShareableLink P s baseUrl) =
              Inr (Some ((case baseUrl of None \<Rightarrow> ''student_search.html'' | Some b \<Rightarrow> b)
                         @ ''?students='' @ encodedData)))"
  using assms
  by (cases "loadStudents P s")
    (auto simp add: generateShareableLink_def generateShareableLink_try_def Let_def)

theorem generateShareableLink_size_guard_witness:
  "snd (loadStudents (reference_platform True True) big_state) = Inr (JArr (idb_students big_state))
   \<and> 50000 < length (JSON_stringify (reference_platform True True) (JArr (idb_students big_state)))
   \<and> snd (generateShareableLink (reference_platform True True) big_state None) = Inr None
   \<and> snd (loadStudents (reference_platform True True) fresh_state) = Inr (JArr [])
   \<and> length (JSON_stringify (reference_platform True True) (JArr [])) \<le> 50000
   \<and> encodeURIComponent (reference_platform True True)
        (JSON_stringify (reference_platform True True) (JArr [])) = Inr ''%5B%5D''
   \<and> snd (generateShareableLink (reference_platform True True) fresh_state None) =
        Inr (Some ''student_search.html?students=%5B%5D'')"
proof -
  let ?P = "reference_platform True True"
  have b1: "snd (loadStudents ?P big_state) = Inr (JArr (idb_students big_state))"
    by (simp add: loadStudents_result load_value_def primary_available_def big_state_def
        fresh_state_def)
  have b2: "50000 < length (JSON_stringify ?P (JArr (idb_students big_state)))"
    using length_quote [of "replicate 50000 (CHR ''a'')"]
    by (simp add: reference_platform_def big_state_def fresh_state_def)
  have s1: "snd (loadStudents ?P fresh_state) = Inr (JArr [])" by code_simp
  have s2: "length (JSON_stringify ?P (JArr [])) \<le> 50000"
    by (simp add: reference_platform_def)
  have s3: "encodeURIComponent ?P (JSON_stringify ?P (JArr [])) = Inr ''%5B%5D''" by code_simp
  have big: "snd (generateShareableLink ?P big_state None) = Inr None"
    using generateShareableLink_size_guard [OF b1, where baseUrl = None] b2 by blast
  have small: "snd (generateShareableLink ?P fresh_state None) =
        Inr (Some ''student_search.html?students=%5B%5D'')"
    using generateShareableLink_size_guard [OF s1, where baseUrl = None and encodedData = "''%5B%5D''"] s2 s3 by simp
  from b1 b2 big s1 s2 s3 small show ?thesis by (intro conjI)
qed

subsection \<open>What \<^verbatim>\<open>importData\<close> checks\<close>

text \<open>
  Claim C8.  \<^verbatim>\<open>importData(jsonData)\<close> throws if and only if \<^verbatim>\<open>jsonData\<close> is missing or
  falsy, or \<^verbatim>\<open>jsonData.data\<close> is; it has then written nothing.  Otherwise it returns
  \<^verbatim>\<open>true\<close>, whatever \<^verbatim>\<open>data\<close> holds, and has done the import:

    \<^item> each of the four auxiliary keys of \<^verbatim>\<open>localStorage\<close> holds the text of its field
      of \<^verbatim>\<open>data\<close> when that value is truthy, and what it held before otherwise; the keys
      other than these and \<^verbatim>\<open>students\<close> are as before;

    \<^item> when \<^verbatim>\<open>data.students\<close> is an array \<open>R\<close>, both flat stores hold the text of \<open>R\<close>
      under \<^verbatim>\<open>students\<close>; with the transactional tier available the connection is open
      and the object store holds, of the records of \<open>R\<close> before the first one without a
      valid key, the last one of each key, and nothing else; without it the object store
      is as before; the effects are those of \<^verbatim>\<open>saveStudents(R)\<close>, then the auxiliary
      writes in their order;

    \<^item> when \<^verbatim>\<open>data.students\<close> is not an array, the records of the three tiers are as
      before and the auxiliary writes are the only effects.

  (The writes to the flat stores are taken to succeed.)
\<close>

theorem importData_throws_iff:
  "snd (importData P s jsonData) =
     (if truthy_val jsonData \<and> truthy_val (Option.bind jsonData (\<lambda>j. get_prop j ''data''))
      then Inr True else Inl InvalidDataFormat)
   \<and> (isl (snd (importData P s jsonData)) \<longrightarrow> fst (importData P s jsonData) = s)
   \<and> (truthy j \<and> get_prop j ''data'' = Some data \<and> truthy data \<longrightarrow>
       (let s' = fst (importData P s (Some j)) in
          (\<forall>(key, field) \<in> set aux_fields.
             localStorage s' key =
               (if truthy_val (get_prop data field)
                then map_option (JSON_stringify P) (get_prop data field)
                else localStorage s key))
        \<and> (\<forall>key. key \<noteq> ''students'' \<and> key \<notin> set (map fst aux_fields) \<longrightarrow>
             localStorage s' key = localStorage s key)
        \<and> (get_prop data ''students'' = Some (JArr R) \<longrightarrow>
             localStorage s' ''students'' = Some (JSON_stringify P (JArr R))
           \<and> sessionStorage s' = (sessionStorage s)(''students'' \<mapsto> JSON_stringify P (JArr R))
           \<and> db s' = primary_available P s
           \<and> (primary_available P s \<longrightarrow>
                set (idb_students s') = set (last_of_key (accepted R))
              \<and> keyed_records (idb_students s'))
           \<and> (\<not> primary_available P s \<longrightarrow> idb_students s' = idb_students s)
           \<and> trace s' = trace (fst (saveStudents P s R)) @ aux_events P data)
        \<and> (\<not> isArray (get_prop data ''students'') \<longrightarrow>
             localStorage s' ''students'' = localStorage s ''students''
           \<and> sessionStorage s' = sessionStorage s
           \<and> db s' = db s
           \<and> idb_students s' = idb_students s
           \<and> trace s' = trace s @ aux_events P data)))"
proof -
  let ?valid = "truthy_val jsonData \<and> truthy_val (Option.bind jsonData (\<lambda>j. get_prop j ''data''))"
  have result: "snd (importData P s jsonData) = (if ?valid then Inr True else Inl InvalidDataFormat)"
  proof (cases ?valid)
    case True
    then obtain j' data' where "jsonData = Some j'" and "truthy j'"
      and "get_prop j' ''data'' = Some data'" and "truthy data'"
      by (cases jsonData; cases "Option.bind jsonData (\<lambda>j. get_prop j ''data'')") auto
    then show ?thesis
      using importData_fields [of j' data' P s] import_fields_result [of P s data'] by simp
  next
    case False
    then show ?thesis by (simp add: importData_failed)
  qed
  have thrown: "fst (importData P s jsonData) = s" if "isl (snd (importData P s jsonData))"
  proof -
    from that result have "\<not> ?valid" by (auto split: if_splits)
    then show ?thesis by (simp add: importData_failed)
  qed
  have done_import: "let s' = fst (importData P s (Some j)) in
          (\<forall>(key, field) \<in> set aux_fields.
             localStorage s' key =
               (if truthy_val (get_prop data field)
                then map_option (JSON_stringify P) (get_prop data field)
                else localStorage s key))
        \<and> (\<forall>key. key \<noteq> ''students'' \<and> key \<notin> set (map fst aux_fields) \<longrightarrow>
             localStorage s' key = localStorage s key)
        \<and> (get_prop data ''students'' = Some (JArr R) \<longrightarrow>
             localStorage s' ''students'' = Some (JSON_stringify P (JArr R))
           \<and> sessionStorage s' = (sessionStorage s)(''students'' \<mapsto> JSON_stringify P (JArr R))
           \<and> db s' = primary_available P s
           \<and> (primary_available P s \<longrightarrow>
                set (idb_students s') = set (last_of_key (accepted R))
              \<and> keyed_records (idb_students s'))
           \<and> (\<not> primary_available P s \<longrightarrow> idb_students s' = idb_students s)
           \<and> trace s' = trace (fst (saveStudents P s R)) @ aux_events P data)
        \<and> (\<not> isArray (get_prop data ''students'') \<longrightarrow>
             localStorage s' ''students'' = localStorage s ''students''
           \<and> sessionStorage s' = sessionStorage s
           \<and> db s' = db s
           \<and> idb_students s' = idb_students s
           \<and> trace s' = trace s @ aux_events P data)"
    if v: "truthy j" "get_prop j ''data'' = Some data" "truthy data"
  proof -
    define s0 where "s0 = (if isArray (get_prop data ''students'')
        then fst (saveStudents P s (elements (get_prop data ''students''))) else s)"
    define s' where "s' = write_aux P (write_aux P (write_aux P (write_aux P s0
          ''blockedStudents'' (get_prop data ''blockedStudents''))
          ''departments'' (get_prop data ''departments''))
          ''customSubjects'' (get_prop data ''customSubjects''))
          ''requiredSubjectSettings'' (get_prop data ''settings'')"
    have arr: "truthy_val (get_prop data ''students'') \<and> isArray (get_prop data ''students'')
        \<longleftrightarrow> isArray (get_prop data ''students'')"
      by (cases "get_prop data ''students''" rule: isArray.cases) simp_all
    have s': "fst (importData P s (Some j)) = s'"
    proof (cases "isArray (get_prop data ''students'')")
      case True
      then obtain R' where R': "get_prop data ''students'' = Some (JArr R')"
        by (cases "get_prop data ''students''" rule: isArray.cases) simp_all
      show ?thesis
        unfolding importData_fields [OF v] import_fields_students [OF R'] s'_def s0_def
        by (simp add: R')
    next
      case False
      with arr have "\<not> (truthy_val (get_prop data ''students'')
          \<and> isArray (get_prop data ''students''))" by simp
      from import_fields_no_students [OF this, of P s] show ?thesis
        unfolding importData_fields [OF v] s'_def s0_def using False by simp
    qed
    have fields: "db s' = db s0" "idb_students s' = idb_students s0"
      "sessionStorage s' = sessionStorage s0"
      "localStorage s' ''students'' = localStorage s0 ''students''"
      unfolding s'_def by (rule aux_writes_fields)+
    have tr: "trace s' = trace s0 @ aux_events P data"
      unfolding s'_def by (rule aux_writes_localStorage(3))
    have other: "localStorage s0 key = localStorage s key" if "key \<noteq> ''students''" for key
      using that by (simp add: s0_def saveStudents_localStorage)
    have aux: "\<forall>(key, field) \<in> set aux_fields.
             localStorage s' key =
               (if truthy_val (get_prop data field)
                then map_option (JSON_stringify P) (get_prop data field)
                else localStorage s key)"
    proof -
      have "\<forall>(key, field) \<in> set aux_fields. localStorage s0 key = localStorage s key"
        by (simp add: aux_fields_def other)
      with aux_writes_localStorage(1) [of P s0 data] show ?thesis
        unfolding s'_def by fastforce
    qed
    have rest: "\<forall>key. key \<noteq> ''students'' \<and> key \<notin> set (map fst aux_fields) \<longrightarrow>
             localStorage s' key = localStorage s key"
      using aux_writes_localStorage(2) [of P s0 data] other unfolding s'_def by simp
    have array: "localStorage s' ''students'' = Some (JSON_stringify P (JArr R))
           \<and> sessionStorage s' = (sessionStorage s)(''students'' \<mapsto> JSON_stringify P (JArr R))
           \<and> db s' = primary_available P s
           \<and> (primary_available P s \<longrightarrow>
                set (idb_students s') = set (last_of_key (accepted R))
              \<and> keyed_records (idb_students s'))
           \<and> (\<not> primary_available P s \<longrightarrow> idb_students s' = idb_students s)
           \<and> trace s' = trace (fst (saveStudents P s R)) @ aux_events P data"
      if R: "get_prop data ''students'' = Some (JArr R)"
    proof -
      have s0: "s0 = fst (saveStudents P s R)" by (simp add: s0_def R)
      show ?thesis
        unfolding fields tr unfolding s0
        by (simp add: saveStudents_localStorage saveStudents_sessionStorage saveStudents_db
            saveStudents_store) (simp add: saveStudents_idb)
    qed
    have no_array: "localStorage s' ''students'' = localStorage s ''students''
           \<and> sessionStorage s' = sessionStorage s
           \<and> db s' = db s
           \<and> idb_students s' = idb_students s
           \<and> trace s' = trace s @ aux_events P data"
      if "\<not> isArray (get_prop data ''students'')"
      unfolding fields tr using that by (simp add: s0_def)
    from aux rest array no_array show ?thesis
      unfolding s' Let_def by blast
  qed
  from result thrown done_import show ?thesis by blast
qed


theorem importData_throws_iff_witness:
  "snd (importData (reference_platform True True) fresh_state None) = Inl InvalidDataFormat
   \<and> fst (importData (reference_platform True True) fresh_state None) = fresh_state
   \<and> snd (importData (reference_platform True True) fresh_state
        (Some (JObj [(''version'', JStr ''1.0'')]))) = Inl InvalidDataFormat
   \<and> snd (importData (reference_platform True True) used_state (Some mixed_envelope)) = Inr True
   \<and> localStorage (fst (importData (reference_platform True True) used_state
        (Some mixed_envelope))) ''departments'' =
        Some (JSON_stringify (reference_platform True True) (JArr [JStr ''CS'']))
   \<and> localStorage (fst (importData (reference_platform True True) used_state
        (Some mixed_envelope))) ''customSubjects'' = Some ''{}''
   \<and> localStorage (fst (importData (reference_platform True True) used_state
        (Some mixed_envelope))) ''blockedStudents'' = None
   \<and> localStorage (fst (importData (reference_platform True True) used_state
        (Some mixed_envelope))) ''students'' =
        Some (JSON_stringify (reference_platform True True) (JArr [ada, eve, nameless, bo]))
   \<and> sessionStorage (fst (importData (reference_platform True True) used_state
        (Some mixed_envelope))) ''students'' =
        Some (JSON_stringify (reference_platform True True) (JArr [ada, eve, nameless, bo]))
   \<and> db (fst (importData (reference_platform True True) used_state (Some mixed_envelope)))
   \<and> set (idb_students (fst (importData (reference_platform True True) used_state
        (Some mixed_envelope)))) = {eve}"
proof -
  let ?P = "reference_platform True True"
  let ?R = "[ada, eve, nameless, bo]"
  let ?s' = "fst (importData ?P used_state (Some mixed_envelope))"
  have h1: "truthy mixed_envelope" by (simp add: mixed_envelope_def)
  have h2: "get_prop mixed_envelope ''data'' = Some mixed_data"
    by (simp add: mixed_envelope_def)
  have h3: "truthy mixed_data" by (simp add: mixed_data_def)
  have h4: "get_prop mixed_data ''students'' = Some (JArr ?R)" by (simp add: mixed_data_def)
  have h5: "primary_available ?P used_state"
    by (simp add: primary_available_def reference_platform_def)
  have kept: "last_of_key (accepted ?R) = [eve]" by code_simp
  have old: "localStorage used_state ''customSubjects'' = Some ''{}''"
    "localStorage used_state ''blockedStudents'' = None"
    by (simp_all add: used_state_def fresh_state_def)
  have none: "snd (importData ?P fresh_state None) = Inl InvalidDataFormat"
    and unchanged: "fst (importData ?P fresh_state None) = fresh_state"
    using importData_throws_iff [of ?P fresh_state None] by simp_all
  have no_data: "snd (importData ?P fresh_state (Some (JObj [(''version'', JStr ''1.0'')]))) =
      Inl InvalidDataFormat"
    using importData_throws_iff [of ?P fresh_state "Some (JObj [(''version'', JStr ''1.0'')])"]
    by simp
  note import = importData_throws_iff [of ?P used_state "Some mixed_envelope"
      mixed_envelope mixed_data ?R]
  have ok: "snd (importData ?P used_state (Some mixed_envelope)) = Inr True"
    using import h1 h2 h3 by simp
  have aux: "localStorage ?s' ''departments'' = Some (JSON_stringify ?P (JArr [JStr ''CS'']))"
    "localStorage ?s' ''customSubjects'' = Some ''{}''"
    "localStorage ?s' ''blockedStudents'' = None"
    using import h1 h2 h3 old by (simp_all add: Let_def aux_fields_def mixed_data_def)
  have records: "localStorage ?s' ''students'' = Some (JSON_stringify ?P (JArr ?R))"
    "sessionStorage ?s' ''students'' = Some (JSON_stringify ?P (JArr ?R))"
    "db ?s'"
    "set (idb_students ?s') = {eve}"
    using import h1 h2 h3 h4 h5 kept by (simp_all add: Let_def)
  from none unchanged no_data ok aux records show ?thesis by (intro conjI)
qed

subsection \<open>What \<^verbatim>\<open>exportData\<close> lets through\<close>

text \<open>
  Claim C9, as amended.  If one of the four auxiliary keys of \<^verbatim>\<open>localStorage\<close> holds a
  text that is not empty and does not parse, \<^verbatim>\<open>exportData\<close> throws; \<^verbatim>\<open>loadStudents\<close>,
  in any state, does not.
\<close>

theorem exportData_malformed_aux:
  assumes "(key, dflt) \<in> set aux_keys" and "localStorage s key = Some t" and "t \<noteq> []"
    and "JSON_parse P t = Inl e"
  shows "isl (snd (exportData P s)) \<and> \<not> isl (snd (loadStudents P s'))"
proof -
  have "read_aux P s key dflt = Inl e"
    using assms(2,3,4) by (simp add: read_aux_def)
  then have "isl (snd (exportData P s))"
    using assms(1) by (auto simp add: aux_keys_def exportData_result split: sum.splits)
  moreover have "\<not> isl (snd (loadStudents P s'))"
    by (simp add: loadStudents_result)
  ultimately show ?thesis by simp
qed

theorem exportData_malformed_aux_witness:
  "(''departments'', ''[]'') \<in> set aux_keys
   \<and> localStorage (fresh_state\<lparr>localStorage := [''departments'' \<mapsto> ''{bad'']\<rparr>) ''departments''
       = Some ''{bad''
   \<and> ''{bad'' \<noteq> []
   \<and> JSON_parse (reference_platform True True) ''{bad'' = Inl SyntaxError
   \<and> isl (snd (exportData (reference_platform True True)
        (fresh_state\<lparr>localStorage := [''departments'' \<mapsto> ''{bad'']\<rparr>)))
   \<and> \<not> isl (snd (loadStudents (reference_platform True True)
        (fresh_state\<lparr>localStorage := [''departments'' \<mapsto> ''{bad'']\<rparr>)))"
proof -
  let ?s = "fresh_state\<lparr>localStorage := [''departments'' \<mapsto> ''{bad'']\<rparr>"
  have h1: "(''departments'', ''[]'') \<in> set aux_keys" by code_simp
  have h2: "localStorage ?s ''departments'' = Some ''{bad''" by code_simp
  have h3: "''{bad'' \<noteq> []" by simp
  have h4: "JSON_parse (reference_platform True True) ''{bad'' = Inl SyntaxError" by code_simp
  from h1 h2 h3 h4 exportData_malformed_aux [OF h1 h2 h3 h4, of ?s] show ?thesis
    by (intro conjI) blast+
qed

text \<open>
  Claim C9 as it was stated, for every text that does not parse, fails for the empty
  text: \<^verbatim>\<open>JSON.parse('')\<close> throws, and \<^verbatim>\<open>getItem(key) || '[]'\<close> reads the default in
  its place, so that \<^verbatim>\<open>exportData\<close> returns.
\<close>

theorem exportData_empty_text_default:
  "localStorage (fresh_state\<lparr>localStorage := [''blockedStudents'' \<mapsto> [] ]\<rparr>) ''blockedStudents''
       = Some []
   \<and> JSON_parse (reference_platform True True) [] = Inl SyntaxError
   \<and> \<not> isl (snd (exportData (reference_platform True True)
        (fresh_state\<lparr>localStorage := [''blockedStudents'' \<mapsto> [] ]\<rparr>)))"
  by code_simp

subsection \<open>Records that are not an array\<close>

text \<open>
  Claim C10.  When \<^verbatim>\<open>jsonData\<close> and \<^verbatim>\<open>jsonData.data\<close> are truthy and \<^verbatim>\<open>data.students\<close>
  is truthy and not an array, \<^verbatim>\<open>importData\<close> returns \<^verbatim>\<open>true\<close> and saves no records:
  \<^verbatim>\<open>db\<close>, the object store, the text under \<^verbatim>\<open>students\<close> in \<^verbatim>\<open>localStorage\<close> and the
  whole of \<^verbatim>\<open>sessionStorage\<close> are as before, and no effect of the call writes the records
  of any tier.
\<close>

theorem importData_non_array_students:
  assumes "truthy j" and "get_prop j ''data'' = Some data" and "truthy data"
    and "get_prop data ''students'' = Some v" and "truthy v" and "\<not> isArray (Some v)"
  shows "snd (importData P s (Some j)) = Inr True
       \<and> db (fst (importData P s (Some j))) = db s
       \<and> idb_students (fst (importData P s (Some j))) = idb_students s
       \<and> localStorage (fst (importData P s (Some j))) ''students'' = localStorage s ''students''
       \<and> sessionStorage (fst (importData P s (Some j))) = sessionStorage s
       \<and> (\<forall>ev \<in> set (drop (length (trace s)) (trace (fst (importData P s (Some j))))).
            \<not> touches_students ev)"
proof -
  have no: "\<not> (truthy_val (get_prop data ''students'') \<and> isArray (get_prop data ''students''))"
    using assms(4,6) by simp
  note eq = importData_fields [OF assms(1,2,3), of P s] import_fields_no_students [OF no, of P s]
  have tr: "\<forall>ev \<in> set (drop (length (trace s)) (trace (write_aux P (write_aux P (write_aux P
      (write_aux P s ''blockedStudents'' b) ''departments'' d) ''customSubjects'' c)
      ''requiredSubjectSettings'' r))). \<not> touches_students ev" for b d c r
    by (cases b; cases d; cases c; cases r) (simp_all add: write_aux_fields)
  have result: "snd (importData P s (Some j)) = Inr True"
    unfolding eq by simp
  have fields: "db (fst (importData P s (Some j))) = db s"
    "idb_students (fst (importData P s (Some j))) = idb_students s"
    "localStorage (fst (importData P s (Some j))) ''students'' = localStorage s ''students''"
    "sessionStorage (fst (importData P s (Some j))) = sessionStorage s"
    unfolding eq by (simp_all add: write_aux_fields(1,2,3) write_aux_other_key)
  have events: "\<forall>ev \<in> set (drop (length (trace s)) (trace (fst (importData P s (Some j))))).
            \<not> touches_students ev"
    unfolding eq fst_conv by (rule tr)
  from result fields events show ?thesis by blast
qed

theorem importData_non_array_students_witness:
  "truthy odd_envelope
   \<and> get_prop odd_envelope ''data'' = Some odd_data
   \<and> truthy odd_data
   \<and> get_prop odd_data ''students'' = Some (JStr ''none'')
   \<and> truthy (JStr ''none'')
   \<and> \<not> isArray (Some (JStr ''none''))
   \<and> snd (importData (reference_platform True True) (fresh_state\<lparr>idb_students := [ada]\<rparr>)
        (Some odd_envelope)) = Inr True
   \<and> idb_students (fst (importData (reference_platform True True)
        (fresh_state\<lparr>idb_students := [ada]\<rparr>) (Some odd_envelope))) = [ada]
   \<and> localStorage (fst (importData (reference_platform True True)
        (fresh_state\<lparr>idb_students := [ada]\<rparr>) (Some odd_envelope))) ''students'' = None
   \<and> sessionStorage (fst (importData (reference_platform True True)
        (fresh_state\<lparr>idb_students := [ada]\<rparr>) (Some odd_envelope))) ''students'' = None
   \<and> list_all (\<lambda>ev. \<not> touches_students ev)
        (trace (fst (importData (reference_platform True True)
           (fresh_state\<lparr>idb_students := [ada]\<rparr>) (Some odd_envelope))))"
proof -
  let ?P = "reference_platform True True"
  let ?s = "fresh_state\<lparr>idb_students := [ada]\<rparr>"
  have h1: "truthy odd_envelope" by (simp add: odd_envelope_def)
  have h2: "get_prop odd_envelope ''data'' = Some odd_data" by (simp add: odd_envelope_def)
  have h3: "truthy odd_data" by (simp add: odd_data_def)
  have h4: "get_prop odd_data ''students'' = Some (JStr ''none'')" by (simp add: odd_data_def)
  have h5: "truthy (JStr ''none'')" by simp
  have h6: "\<not> isArray (Some (JStr ''none''))" by simp
  have s: "idb_students ?s = [ada]" "localStorage ?s ''students'' = None"
    "sessionStorage ?s = Map.empty" "trace ?s = []"
    by (simp_all add: fresh_state_def)
  from importData_non_array_students [OF h1 h2 h3 h4 h5 h6, of ?P ?s]
  have "snd (importData ?P ?s (Some odd_envelope)) = Inr True"
    and "idb_students (fst (importData ?P ?s (Some odd_envelope))) = [ada]"
    and "localStorage (fst (importData ?P ?s (Some odd_envelope))) ''students'' = None"
    and "sessionStorage (fst (importData ?P ?s (Some odd_envelope))) ''students'' = None"
    and "list_all (\<lambda>ev. \<not> touches_students ev)
          (trace (fst (importData ?P ?s (Some odd_envelope))))"
    unfolding s by (simp_all add: list_all_iff)
  with h1 h2 h3 h4 h5 h6 show ?thesis by (intro conjI)
qed

end
